theory Spec2Isabelle
  imports Complex_Main "HOL-Library.Word" "HOL-Library.Sublist"
begin

section \<open>JavaScript strings\<close>

text \<open>
  A JavaScript string is a sequence of UTF-16 code units. \<open>js\<close> turns an ASCII literal
  into its code units, so that the literals of the source can be written as they are;
  \<open>jsChar\<close> does so for one character.
\<close>

type_synonym jschar = "16 word"
type_synonym jsstring = "jschar list"

definition js :: "string \<Rightarrow> jsstring" where
  "js s = map of_char s"

definition jsChar :: "char \<Rightarrow> jschar" where
  "jsChar c = of_char c"

text \<open>
  \<open>Number.prototype.toString\<close> on a non-negative integer: its decimal digits, most
  significant first, with no leading zero.
\<close>

definition digitChar :: "nat \<Rightarrow> jschar" where
  "digitChar d = of_nat (48 + d)"

fun toString :: "nat \<Rightarrow> jsstring" where
  "toString n = (if n < 10 then [digitChar n] else toString (n div 10) @ [digitChar (n mod 10)])"

declare toString.simps [simp del]

text \<open>
  \<open>String.prototype.padStart\<close>: a string that is long enough, or an empty filler, leaves
  the string as it is; otherwise the filler is repeated and cut to the missing length.
\<close>

definition padStart :: "jsstring \<Rightarrow> nat \<Rightarrow> jsstring \<Rightarrow> jsstring" where
  "padStart s targetLength padString =
     (if targetLength \<le> length s \<or> padString = [] then s
      else take (targetLength - length s) (concat (replicate (targetLength - length s) padString)) @ s)"

text \<open>
  \<open>Array.prototype.join\<close> on an array of strings: the elements with the separator
  between each two of them, and nothing at either end.
\<close>

fun join :: "jsstring list \<Rightarrow> jsstring \<Rightarrow> jsstring" where
  "join [] separator = []"
| "join [x] separator = x"
| "join (x # y # ys) separator = x @ separator @ join (y # ys) separator"

text \<open>
  \<open>String.prototype.trim\<close> removes white space and line terminators from both ends:
  TAB, LF, VT, FF, CR, space, no-break space, the Unicode space separators and the
  line and paragraph separators, and the byte order mark.
\<close>

definition isWhiteSpace :: "jschar \<Rightarrow> bool" where
  "isWhiteSpace c =
     (c \<in> {0x0009, 0x000A, 0x000B, 0x000C, 0x000D, 0x0020, 0x00A0, 0x1680,
            0x2028, 0x2029, 0x202F, 0x205F, 0x3000, 0xFEFF}
      \<or> (0x2000 \<le> c \<and> c \<le> 0x200A))"

definition trim :: "jsstring \<Rightarrow> jsstring" where
  "trim s = rev (dropWhile isWhiteSpace (rev (dropWhile isWhiteSpace s)))"

text \<open>
  \<open>indexOf\<close> and \<open>lastIndexOf\<close> for a search string of one character: the index of
  its first and of its last occurrence, -1 when there is none.
\<close>

fun indexOf :: "jsstring \<Rightarrow> jschar \<Rightarrow> int" where
  "indexOf [] c = -1"
| "indexOf (x # xs) c =
     (if x = c then 0 else (let i = indexOf xs c in if i = -1 then -1 else i + 1))"

definition lastIndexOf :: "jsstring \<Rightarrow> jschar \<Rightarrow> int" where
  "lastIndexOf s c =
     (let i = indexOf (rev s) c in if i = -1 then -1 else int (length s) - 1 - i)"

text \<open>
  \<open>String.prototype.substring\<close>: both indices are clamped to the string, and swapped
  when the first is the larger.
\<close>

definition substring :: "jsstring \<Rightarrow> int \<Rightarrow> int \<Rightarrow> jsstring" where
  "substring s indexStart indexEnd =
     (let len = int (length s);
          finalStart = min (max indexStart 0) len;
          finalEnd = min (max indexEnd 0) len;
          from = min finalStart finalEnd;
          to = max finalStart finalEnd
      in take (nat (to - from)) (drop (nat from) s))"

text \<open>
  The two regular expressions of the source are sequences of character classes. A
  regular expression here is the list of its classes, each the list of the code units it
  accepts; \<open>matchHere\<close> says that the expression matches at the start of a string, and
  \<open>removeMatches\<close> is \<open>replace\<close> with a global expression and the empty replacement: it
  scans from the left, drops the leftmost match and goes on after it. (An empty
  expression matches the empty string everywhere, and replacing that by the empty
  string changes nothing.)
\<close>

type_synonym regex = "jschar list list"

fun matchHere :: "regex \<Rightarrow> jsstring \<Rightarrow> bool" where
  "matchHere [] s = True"
| "matchHere (cls # re) [] = False"
| "matchHere (cls # re) (x # xs) = (x \<in> set cls \<and> matchHere re xs)"

fun removeMatches :: "regex \<Rightarrow> jsstring \<Rightarrow> jsstring" where
  "removeMatches re [] = []"
| "removeMatches re (x # xs) =
     (if re \<noteq> [] \<and> matchHere re (x # xs)
      then removeMatches re (drop (length re - 1) xs)
      else x # removeMatches re xs)"

text \<open>Whether an expression matches somewhere in a string.\<close>

fun occursIn :: "regex \<Rightarrow> jsstring \<Rightarrow> bool" where
  "occursIn re [] = matchHere re []"
| "occursIn re (x # xs) = (matchHere re (x # xs) \<or> occursIn re xs)"

text \<open>
  The number of places of a string where a given string starts. It counts the
  delimiters of a serialised reference list.
\<close>

fun countOccurrences :: "jsstring \<Rightarrow> jsstring \<Rightarrow> nat" where
  "countOccurrences p [] = 0"
| "countOccurrences p (x # xs) = (if prefix p (x # xs) then 1 else 0) + countOccurrences p xs"

text \<open>
  A JavaScript \<open>Error\<close> with its message, and the outcome of an awaited promise of an
  external library: it rejects with an error, or resolves to a value.
\<close>

datatype error = Error (message: jsstring)

datatype 'a awaited = Rejects error | Resolves 'a

section \<open>Reference store: \<open>types.ts\<close> and \<open>components/ReferenceList.tsx\<close>\<close>

text \<open>
  The types of \<open>types.ts\<close> stand in the file \<open>App.tsx\<close> of the sources, after the
  component \<open>App\<close>.
\<close>

datatype SourceType = PAPER | BOOK | WEBSITE | THESIS | OTHER

text \<open>The string value of each member of the enum.\<close>

fun sourceTypeValue :: "SourceType \<Rightarrow> jsstring" where
  "sourceTypeValue PAPER = js ''paper''"
| "sourceTypeValue BOOK = js ''book''"
| "sourceTypeValue WEBSITE = js ''website''"
| "sourceTypeValue THESIS = js ''thesis''"
| "sourceTypeValue OTHER = js ''other''"

text \<open>
  \<open>ReferenceItem\<close>. The fields \<open>id\<close> and \<open>text\<close> of the source are \<open>ref_id\<close> and
  \<open>ref_text\<close> here (\<open>id\<close> is the identity function of HOL, \<open>text\<close> a command of
  Isabelle). \<open>isExpanded\<close> is optional in the source.
\<close>

record ReferenceItem =
  ref_id :: jsstring
  sourceType :: SourceType
  ref_text :: jsstring
  isExpanded :: "bool option"

text \<open>
  The \<open>references\<close> array holds objects, and \<open>updateReference\<close> is written so that the
  objects it does not touch stay the same objects. To say so, the objects live in a
  store: an object's address is its index in the store, a new object goes to the end of
  the store, and the array is a list of addresses. \<open>deref\<close> reads the records of an array,
  and an array is valid in a store when each of its addresses holds an object.
\<close>

type_synonym addr = nat
type_synonym heap = "ReferenceItem list"

definition deref :: "heap \<Rightarrow> addr list \<Rightarrow> ReferenceItem list" where
  "deref h references = map (\<lambda>a. h ! a) references"

definition valid_store :: "heap \<Rightarrow> addr list \<Rightarrow> bool" where
  "valid_store h references = list_all (\<lambda>a. a < length h) references"

text \<open>
  \<open>addReference\<close>: \<open>onUpdate([...references, newRef])\<close>. The function returns the store
  with the new object and the array handed to \<open>onUpdate\<close>.
\<close>

definition addReference :: "heap \<Rightarrow> addr list \<Rightarrow> heap \<times> addr list" where
  "addReference h references =
     (let newRef = \<lparr> ref_id = js ''REF-'' @ padStart (toString (length references + 1)) 3 (js ''0''),
                      sourceType = PAPER,
                      ref_text = js '''',
                      isExpanded = Some True \<rparr>
      in (h @ [newRef], references @ [length h]))"

text \<open>
  The arguments \<open>field\<close> and \<open>value\<close> of \<open>updateReference\<close>, as one value: a field of
  \<open>ReferenceItem\<close> with a value of that field's type, which is what the four callers pass
  (\<open>'id'\<close>, \<open>'sourceType'\<close> and \<open>'text'\<close> from the inputs, \<open>'isExpanded'\<close> from
  \<open>toggleExpand\<close>). \<open>set_field\<close> is the object spread \<open>{ ...old, [field]: value }\<close>.
\<close>

datatype field_value =
    Field_id jsstring
  | Field_sourceType SourceType
  | Field_text jsstring
  | Field_isExpanded bool

fun set_field :: "field_value \<Rightarrow> ReferenceItem \<Rightarrow> ReferenceItem" where
  "set_field (Field_id v) r = r\<lparr>ref_id := v\<rparr>"
| "set_field (Field_sourceType v) r = r\<lparr>sourceType := v\<rparr>"
| "set_field (Field_text v) r = r\<lparr>ref_text := v\<rparr>"
| "set_field (Field_isExpanded v) r = r\<lparr>isExpanded := Some v\<rparr>"

text \<open>
  \<open>updateReference\<close>: the array is copied, a new object is built from the one at \<open>index\<close>
  and stored at \<open>index\<close> of the copy. An index past the end would make JavaScript extend
  the array with holes and store an object that has the one field only; that array is not
  a \<open>ReferenceItem[]\<close>, and the result is \<open>None\<close> here. The callers pass the index of a
  rendered record.
\<close>

definition updateReference :: "heap \<Rightarrow> addr list \<Rightarrow> nat \<Rightarrow> field_value \<Rightarrow> (heap \<times> addr list) option" where
  "updateReference h references index fv =
     (if index < length references
      then (let newRefs = references;
                obj = set_field fv (h ! (newRefs ! index))
            in Some (h @ [obj], newRefs[index := length h]))
      else None)"

text \<open>\<open>removeReference\<close>: \<open>references.filter((_, i) => i !== index)\<close>.\<close>

definition removeReference :: "heap \<Rightarrow> addr list \<Rightarrow> nat \<Rightarrow> heap \<times> addr list" where
  "removeReference h references index =
     (h, map snd (filter (\<lambda>(i, _). i \<noteq> index) (enumerate 0 references)))"

text \<open>
  Reading a generated id back: the characters after \<open>REF-\<close> are decimal digits, and
  \<open>decimalValue\<close> is the number they write.
\<close>

definition isDigit :: "jschar \<Rightarrow> bool" where
  "isDigit c = (0x30 \<le> c \<and> c \<le> 0x39)"

definition decimalValue :: "jsstring \<Rightarrow> nat" where
  "decimalValue s = foldl (\<lambda>acc c. 10 * acc + (unat c - 48)) 0 s"

section \<open>Text extraction: \<open>utils/pdfUtils.ts\<close>\<close>

text \<open>
  What the PDF library gives the function: a text item has its string \<open>str\<close>; a page
  gives its text content, a list of items; a document has \<open>numPages\<close> pages and gives
  page \<open>i\<close> on request. Each of these calls is a promise that may reject, as is reading
  the file's bytes and opening the document (\<open>getDocument\<close>, a parameter here).
\<close>

record TextItem =
  str :: jsstring

record TextContent =
  items :: "TextItem list"

record PDFPageProxy =
  getTextContent :: "TextContent awaited"

record PDFDocumentProxy =
  numPages :: nat
  getPage :: "nat \<Rightarrow> PDFPageProxy awaited"

record 'b File =
  arrayBuffer :: "'b awaited"

text \<open>
  The loop \<open>for (let i = 1; i <= pdf.numPages; i++)\<close>, with \<open>fullText\<close> as accumulator.
  A rejected promise leaves the loop, as the exception does.
\<close>

function extractPages :: "PDFDocumentProxy \<Rightarrow> nat \<Rightarrow> jsstring \<Rightarrow> jsstring awaited" where
  "extractPages pdf i fullText =
     (if i \<le> numPages pdf then
        (case getPage pdf i of
           Rejects e \<Rightarrow> Rejects e
         | Resolves page \<Rightarrow>
             (case getTextContent page of
                Rejects e \<Rightarrow> Rejects e
              | Resolves textContent \<Rightarrow>
                  (let pageText = join (map str (items textContent)) (js '' '')
                   in extractPages pdf (i + 1) (fullText @ pageText @ js ''\<newline>\<newline>''))))
      else Resolves fullText)"
  by pat_completeness auto
termination
  by (relation "measure (\<lambda>(pdf, i, fullText). numPages pdf + 1 - i)") auto

declare extractPages.simps [simp del]

text \<open>
  \<open>extractTextFromPdf\<close>: the \<open>try\<close> block, and the \<open>catch\<close> that replaces every error by
  one with a fixed message.
\<close>

definition extractTextFromPdf :: "('b \<Rightarrow> PDFDocumentProxy awaited) \<Rightarrow> 'b File \<Rightarrow> error + jsstring" where
  "extractTextFromPdf getDocument file =
     (let attempt =
        (case arrayBuffer file of
           Rejects e \<Rightarrow> Rejects e
         | Resolves data \<Rightarrow>
             (case getDocument data of
                Rejects e \<Rightarrow> Rejects e
              | Resolves pdf \<Rightarrow> extractPages pdf 1 []))
      in case attempt of
           Rejects e \<Rightarrow>
             Inl (Error (js ''Failed to extract text from PDF. Please ensure it is a valid text-based PDF.''))
         | Resolves fullText \<Rightarrow> Inr fullText)"

text \<open>
  A document is readable when every promise on the way resolves; \<open>pageTexts\<close> are then
  the texts of its pages in page order, each the page's items joined by one space.
\<close>

definition pageItems :: "PDFDocumentProxy \<Rightarrow> nat \<Rightarrow> TextItem list option" where
  "pageItems pdf i =
     (case getPage pdf i of
        Rejects e \<Rightarrow> None
      | Resolves page \<Rightarrow>
          (case getTextContent page of Rejects e \<Rightarrow> None | Resolves textContent \<Rightarrow> Some (items textContent)))"

definition readablePdf :: "PDFDocumentProxy \<Rightarrow> bool" where
  "readablePdf pdf = list_all (\<lambda>i. pageItems pdf i \<noteq> None) [1..<Suc (numPages pdf)]"

definition pageTexts :: "PDFDocumentProxy \<Rightarrow> jsstring list" where
  "pageTexts pdf =
     map (\<lambda>i. case pageItems pdf i of None \<Rightarrow> [] | Some its \<Rightarrow> join (map str its) (js '' ''))
       [1..<Suc (numPages pdf)]"

definition opened :: "('b \<Rightarrow> PDFDocumentProxy awaited) \<Rightarrow> 'b File \<Rightarrow> PDFDocumentProxy option" where
  "opened getDocument file =
     (case arrayBuffer file of
        Rejects e \<Rightarrow> None
      | Resolves data \<Rightarrow> (case getDocument data of Rejects e \<Rightarrow> None | Resolves pdf \<Rightarrow> Some pdf))"

text \<open>
  An example: a document of two pages, the first with the items \<open>Hello\<close> and
  \<open>world\<close>, the second with the item \<open>second\<close>.
\<close>

definition twoPages :: PDFDocumentProxy where
  "twoPages =
     \<lparr> numPages = 2,
       getPage = (\<lambda>i. if i = 1
                      then Resolves \<lparr> getTextContent = Resolves \<lparr> items = [\<lparr> str = js ''Hello'' \<rparr>, \<lparr> str = js ''world'' \<rparr>] \<rparr> \<rparr>
                      else Resolves \<lparr> getTextContent = Resolves \<lparr> items = [\<lparr> str = js ''second'' \<rparr>] \<rparr> \<rparr>) \<rparr>"

section \<open>Analysis results: \<open>types.ts\<close>\<close>

datatype PlagiarismType = verbatim | close_paraphrase | mosaic

datatype CitationStatus = no_citation | has_citation_but_too_close | properly_cited

datatype RiskCategory = no_issue | minor_overlap | moderate_risk | high_risk

text \<open>The field \<open>type\<close> of \<open>MatchResult\<close> is \<open>match_type\<close> here.\<close>

record MatchResult =
  match_type :: PlagiarismType
  document_span :: jsstring
  reference_id :: "jsstring option"
  suspected_reference_ids :: "jsstring list option"
  reference_snippet :: jsstring
  citation_status :: CitationStatus
  similarity_explanation :: jsstring

record WebSource =
  uri :: jsstring
  title :: jsstring

record AnalysisResult =
  overall_plagiarism_risk :: real
  category :: RiskCategory
  summary :: "jsstring list"
  matches :: "MatchResult list"
  webSources :: "WebSource list option"

section \<open>Analysis client: \<open>services/geminiService.ts\<close>\<close>

subsection \<open>The client and its credential\<close>

text \<open>
  \<open>getClient\<close> reads \<open>process.env.API_KEY\<close>, a string or undefined, when it is called.
  An undefined or empty key is falsy and makes it throw.
\<close>

datatype GoogleGenAI = GoogleGenAI jsstring

definition getClient :: "jsstring option \<Rightarrow> error + GoogleGenAI" where
  "getClient API_KEY =
     (case API_KEY of
        None \<Rightarrow> Inl (Error (js ''API Key is missing''))
      | Some apiKey \<Rightarrow>
          if apiKey = [] then Inl (Error (js ''API Key is missing''))
          else Inr (GoogleGenAI apiKey))"

subsection \<open>The prompt\<close>

text \<open>One reference as a delimited block, and the blocks joined by a line feed.\<close>

definition formatReference :: "ReferenceItem \<Rightarrow> jsstring" where
  "formatReference ref =
     js ''\<newline>---REFERENCE_START---\<newline>ID: '' @ ref_id ref @
     js ''\<newline>SOURCE_TYPE: '' @ sourceTypeValue (sourceType ref) @
     js ''\<newline>TEXT:\<newline>'' @ ref_text ref @
     js ''\<newline>---REFERENCE_END---\<newline>''"

definition formatReferences :: "ReferenceItem list \<Rightarrow> jsstring" where
  "formatReferences references = join (map formatReference references) (js ''\<newline>'')"

text \<open>
  The references section of the prompt:
  \<open>formattedReferences.trim() ? formattedReferences : "(No local references provided)"\<close>.
\<close>

definition referencesSection :: "ReferenceItem list \<Rightarrow> jsstring" where
  "referencesSection references =
     (let formattedReferences = formatReferences references
      in if trim formattedReferences \<noteq> [] then formattedReferences
         else js ''(No local references provided)'')"

text \<open>The delimiter that starts a block, to count the blocks of a section.\<close>

definition referenceStart :: jsstring where
  "referenceStart = js ''---REFERENCE_START---''"

text \<open>An example: a reference whose text is the delimiter itself.\<close>

definition delimiterReference :: ReferenceItem where
  "delimiterReference =
     \<lparr> ref_id = js ''REF-001'', sourceType = PAPER, ref_text = js ''---REFERENCE_START---'',
       isExpanded = Some True \<rparr>"

text \<open>The fixed text of the prompt, between the places where values are inserted.\<close>

definition prompt_role :: jsstring where
  \<open>prompt_role = concat
     [js ''\<newline>'',
      js ''You are an expert academic plagiarism analyst. You specialize in analyzing ALL TYPES of academic documents, including:\<newline>'',
      js ''- Research papers\<newline>'',
      js ''- Survey papers\<newline>'',
      js ''- Review articles\<newline>'',
      js ''- Theses and dissertations\<newline>'',
      js ''- Project reports\<newline>'',
      js ''- Conference papers\<newline>'',
      js ''- Technical articles and whitepapers\<newline>'',
      js ''\<newline>'',
      js ''Your job is to analyze a GIVEN_DOCUMENT and detect possible plagiarism against a set of REFERENCE_TEXTS '']\<close>

definition prompt_input_format :: jsstring where
  \<open>prompt_input_format = concat
     [js ''.\<newline>'',
      js ''\<newline>'',
      js ''########################\<newline>'',
      js ''## INPUT FORMAT\<newline>'',
      js ''########################\<newline>'',
      js ''\<newline>'',
      js ''1. DOCUMENT_TYPE:\<newline>'']\<close>

definition prompt_document_start :: jsstring where
  \<open>prompt_document_start = concat
     [js ''\<newline>'',
      js ''\<newline>'',
      js ''2. GIVEN_DOCUMENT:\<newline>'',
      js ''<START_DOCUMENT>\<newline>'']\<close>

definition prompt_document_end :: jsstring where
  \<open>prompt_document_end = concat
     [js ''\<newline>'',
      js ''<END_DOCUMENT>\<newline>'',
      js ''\<newline>'',
      js ''3. REFERENCE_TEXTS:\<newline>'']\<close>

definition prompt_after_references :: jsstring where
  \<open>prompt_after_references = concat
     [js ''\<newline>'',
      js ''\<newline>'']\<close>

definition prompt_web_check :: jsstring where
  \<open>prompt_web_check = concat
     [js ''\<newline>'',
      js ''4. WEB CHECK INSTRUCTIONS:\<newline>'',
      js ''You have access to the Google Search tool.\<newline>'',
      js ''- You MUST use Google Search to check if segments of the GIVEN_DOCUMENT appear online.\<newline>'',
      js ''- Look for verbatim copying or close paraphrasing from external websites, journals, or repositories.\<newline>'',
      js ''- If you find a match on the web that is NOT in the provided REFERENCE_TEXTS:\<newline>'',
      js ''    a) Create a match entry in the output JSON.\<newline>'',
      js ''    b) Set 'reference_id' to "WEB-SOURCE".\<newline>'',
      js ''    c) Include the URL or Source Title in the 'reference_snippet' or 'similarity_explanation'.\<newline>'',
      js ''    d) Treat these as valid plagiarism findings.\<newline>'']\<close>

definition prompt_tasks :: jsstring where
  \<open>prompt_tasks = concat
     [js ''\<newline>'',
      js ''\<newline>'',
      js ''########################\<newline>'',
      js ''## YOUR TASKS\<newline>'',
      js ''########################\<newline>'',
      js ''\<newline>'',
      js ''You must perform a plagiarism-style analysis with these steps:\<newline>'',
      js ''\<newline>'',
      js ''1. DETECT DIRECT COPYING (VERBATIM)\<newline>'',
      js ''   - Find segments in GIVEN_DOCUMENT that closely match any REFERENCE_TEXTS '']\<close>

definition prompt_output_format :: jsstring where
  \<open>prompt_output_format = concat
     [js '' with almost identical wording.\<newline>'',
      js ''   - Mark them as: type: "verbatim"\<newline>'',
      js ''   - For each such segment, provide:\<newline>'',
      js ''       - document_span: a short excerpt or clear location marker from the GIVEN_DOCUMENT\<newline>'',
      js ''       - reference_id: ID of the reference (or "WEB-SOURCE")\<newline>'',
      js ''       - reference_snippet: a short snippet from the reference (or URL/Title if from web)\<newline>'',
      js ''       - similarity_explanation: briefly explain why this appears as direct copying.\<newline>'',
      js ''\<newline>'',
      js ''2. DETECT CLOSE PARAPHRASING\<newline>'',
      js ''   - Find segments where the ideas, order, and structure are very similar to a reference, but the words are only slightly changed.\<newline>'',
      js ''   - Mark them as: type: "close_paraphrase"\<newline>'',
      js ''   - Provide the same fields as above.\<newline>'',
      js ''\<newline>'',
      js ''3. DETECT MOSAIC / PATCHWORK PLAGIARISM\<newline>'',
      js ''   - Find segments that appear to be a mix of multiple sources with minor edits.\<newline>'',
      js ''   - Mark them as: type: "mosaic"\<newline>'',
      js ''   - Include: suspected_reference_ids (list of IDs).\<newline>'',
      js ''\<newline>'',
      js ''4. CHECK CITATION & ATTRIBUTION\<newline>'',
      js ''   - For each suspicious segment, check if the source is properly cited near that segment.\<newline>'',
      js ''   - Mark: citation_status: "no_citation", "has_citation_but_too_close", or "properly_cited"\<newline>'',
      js ''\<newline>'',
      js ''5. OVERALL SCORES\<newline>'',
      js ''   - Provide:\<newline>'',
      js ''     - overall_plagiarism_risk: a number from 0 to 100.\<newline>'',
      js ''     - summary: 3'' @ [0x2013] @ js ''5 bullet points describing the main issues.\<newline>'',
      js ''     - category: one of ["no_issue", "minor_overlap", "moderate_risk", "high_risk"].\<newline>'',
      js ''\<newline>'',
      js ''########################\<newline>'',
      js ''## OUTPUT FORMAT\<newline>'',
      js ''########################\<newline>'',
      js ''\<newline>'',
      js ''Respond ONLY in valid JSON with this structure. Do NOT output markdown code blocks. Do NOT output any conversational text.\<newline>'',
      js ''\<newline>'',
      js ''{\<newline>'',
      js ''  "overall_plagiarism_risk": <number 0-100>,\<newline>'',
      js ''  "category": "<no_issue | minor_overlap | moderate_risk | high_risk>",\<newline>'',
      js ''  "summary": [\<newline>'',
      js ''    "string bullet 1",\<newline>'',
      js ''    "string bullet 2"\<newline>'',
      js ''  ],\<newline>'',
      js ''  "matches": [\<newline>'',
      js ''    {\<newline>'',
      js ''      "type": "<verbatim | close_paraphrase | mosaic>",\<newline>'',
      js ''      "document_span": "short excerpt or clear location marker from the GIVEN_DOCUMENT",\<newline>'',
      js ''      "reference_id": "ID or 'WEB-SOURCE'",\<newline>'',
      js ''      "suspected_reference_ids": ["optional list"],\<newline>'',
      js ''      "reference_snippet": "short quote or URL",\<newline>'',
      js ''      "citation_status": "<no_citation | has_citation_but_too_close | properly_cited>",\<newline>'',
      js ''      "similarity_explanation": "brief explanation"\<newline>'',
      js ''    }\<newline>'',
      js ''  ]\<newline>'',
      js ''}\<newline>'',
      js ''\<newline>'',
      js ''Rules:\<newline>'',
      js ''- Be conservative but honest.\<newline>'',
      js ''- If you are unsure, explain the uncertainty in the explanation field.\<newline>'']\<close>

definition buildPrompt :: "jsstring \<Rightarrow> ReferenceItem list \<Rightarrow> jsstring \<Rightarrow> bool \<Rightarrow> jsstring" where
  "buildPrompt documentText references documentType enableWebSearch =
     prompt_role @
     (if enableWebSearch then js ''and content found on the Internet via Google Search'' else js '''') @
     prompt_input_format @ documentType @
     prompt_document_start @ documentText @
     prompt_document_end @ referencesSection references @
     prompt_after_references @
     (if enableWebSearch then prompt_web_check else js '''') @
     prompt_tasks @
     (if enableWebSearch then js ''or WEB SOURCES'' else js '''') @
     prompt_output_format"

subsection \<open>The request and the response\<close>

datatype Tool = GoogleSearch

record GenerateContentConfig =
  tools :: "Tool list option"
  responseMimeType :: "jsstring option"

record GenerateContentParameters =
  model :: jsstring
  contents :: jsstring
  config :: GenerateContentConfig

definition buildConfig :: "bool \<Rightarrow> GenerateContentConfig" where
  "buildConfig enableWebSearch =
     (if enableWebSearch
      then \<lparr> tools = Some [GoogleSearch], responseMimeType = None \<rparr>
      else \<lparr> tools = None, responseMimeType = Some (js ''application/json'') \<rparr>)"

text \<open>
  The response of the model, as far as the function reads it. The fields \<open>uri\<close> and
  \<open>title\<close> of a chunk's \<open>web\<close> are \<open>web_uri\<close> and \<open>web_title\<close> here, and the field
  \<open>text\<close> of the response is \<open>response_text\<close>.
\<close>

record GroundingChunkWeb =
  web_uri :: "jsstring option"
  web_title :: "jsstring option"

record GroundingChunk =
  web :: "GroundingChunkWeb option"

record GroundingMetadata =
  groundingChunks :: "GroundingChunk list option"

record Candidate =
  groundingMetadata :: "GroundingMetadata option"

record GenerateContentResponse =
  response_text :: "jsstring option"
  candidates :: "Candidate list option"

subsection \<open>Cleaning the text of the response\<close>

text \<open>
  The expressions \<open>/```json/gi\<close> and \<open>/```/g\<close>: three backticks, and for the first one the
  letters of \<open>json\<close> in either case (the flag \<open>i\<close>, without the flag \<open>u\<close>, makes an ASCII
  letter match its other case and nothing else).
\<close>

definition fenceJson :: regex where
  "fenceJson = [[0x60], [0x60], [0x60], [0x6A, 0x4A], [0x73, 0x53], [0x6F, 0x4F], [0x6E, 0x4E]]"

definition fence :: regex where
  "fence = [[0x60], [0x60], [0x60]]"

definition stripFences :: "jsstring \<Rightarrow> jsstring" where
  "stripFences text0 = removeMatches fence (removeMatches fenceJson text0)"

text \<open>
  Lines 159 to 167 of the source: both replacements, then the slice from the first
  opening brace to the last closing brace when there is such a pair.
\<close>

definition cleanJsonText :: "jsstring \<Rightarrow> jsstring" where
  "cleanJsonText text0 =
     (let text1 = stripFences text0;
          firstOpen = indexOf text1 (jsChar CHR ''{'');
          lastClose = lastIndexOf text1 (jsChar CHR ''}'')
      in if firstOpen \<noteq> -1 \<and> lastClose \<noteq> -1 \<and> lastClose > firstOpen
         then substring text1 firstOpen (lastClose + 1)
         else text1)"

text \<open>A code fence marker, for the examples.\<close>

definition codeFence :: jsstring where
  "codeFence = [0x60, 0x60, 0x60]"

text \<open>The specification's example of a wrapped reply: prose, then fenced JSON.\<close>

definition exampleRaw :: jsstring where
  \<open>exampleRaw = js ''Sure! '' @ codeFence @ js ''json\<newline>{"overall_plagiarism_risk":10}\<newline>'' @ codeFence\<close>

text \<open>
  \<open>JSON.parse\<close> followed by the cast to \<open>AnalysisResult\<close> is a parameter: a function
  from the text to the result, \<open>None\<close> when \<open>JSON.parse\<close> throws.
\<close>

definition parseCleaned :: "(jsstring \<Rightarrow> AnalysisResult option) \<Rightarrow> jsstring \<Rightarrow> error + AnalysisResult" where
  "parseCleaned JSON_parse text0 =
     (case JSON_parse (cleanJsonText text0) of
        None \<Rightarrow> Inl (Error (js ''Failed to parse analysis results. The AI response was not valid JSON.''))
      | Some result \<Rightarrow> Inr result)"

subsection \<open>Web sources\<close>

text \<open>
  A string or undefined is truthy when it is a non-empty string. \<open>webSourceOf\<close> is the
  filter \<open>c.web?.uri\<close> and the map to \<open>{ uri, title: c.web.title || c.web.uri }\<close> on one
  chunk: \<open>None\<close> for a chunk the filter drops.
\<close>

definition truthy :: "jsstring option \<Rightarrow> bool" where
  "truthy v = (case v of None \<Rightarrow> False | Some s \<Rightarrow> s \<noteq> [])"

definition webSourceOf :: "GroundingChunk \<Rightarrow> WebSource option" where
  "webSourceOf c =
     (case web c of
        None \<Rightarrow> None
      | Some w \<Rightarrow>
          (case web_uri w of
             None \<Rightarrow> None
           | Some u \<Rightarrow>
               if u = [] then None
               else Some \<lparr> uri = u,
                           title = (case web_title w of
                                      None \<Rightarrow> u
                                    | Some t \<Rightarrow> if t = [] then u else t) \<rparr>))"

text \<open>
  A JavaScript \<open>Map\<close> keeps its keys in the order of their first insertion; \<open>set\<close> on
  a key that is there replaces the value and leaves the key where it is. The map is the
  list of its entries in that order.
\<close>

fun mapSet :: "('k \<times> 'v) list \<Rightarrow> 'k \<Rightarrow> 'v \<Rightarrow> ('k \<times> 'v) list" where
  "mapSet [] k v = [(k, v)]"
| "mapSet ((k', v') # m) k v = (if k' = k then (k', v) # m else (k', v') # mapSet m k v)"

definition newMap :: "('k \<times> 'v) list \<Rightarrow> ('k \<times> 'v) list" where
  "newMap entries = foldl (\<lambda>m (k, v). mapSet m k v) [] entries"

definition mapValues :: "('k \<times> 'v) list \<Rightarrow> 'v list" where
  "mapValues m = map snd m"

definition uniqueSources :: "WebSource list \<Rightarrow> WebSource list" where
  "uniqueSources sources = mapValues (newMap (map (\<lambda>s. (uri s, s)) sources))"

definition extractWebSources :: "GroundingChunk list \<Rightarrow> WebSource list" where
  "extractWebSources chunks = uniqueSources (List.map_filter webSourceOf chunks)"

text \<open>\<open>response.candidates?.[0]?.groundingMetadata?.groundingChunks\<close>.\<close>

definition groundingChunksOf :: "GenerateContentResponse \<Rightarrow> GroundingChunk list option" where
  "groundingChunksOf response =
     (case candidates response of
        None \<Rightarrow> None
      | Some [] \<Rightarrow> None
      | Some (c # cs) \<Rightarrow>
          (case groundingMetadata c of None \<Rightarrow> None | Some metadata \<Rightarrow> groundingChunks metadata))"

definition attachWebSources :: "bool \<Rightarrow> GenerateContentResponse \<Rightarrow> AnalysisResult \<Rightarrow> AnalysisResult" where
  "attachWebSources enableWebSearch response result =
     (if enableWebSearch
      then (case groundingChunksOf response of
              None \<Rightarrow> result
            | Some chunks \<Rightarrow> result\<lparr> webSources := Some (extractWebSources chunks) \<rparr>)
      else result)"

text \<open>
  The first-occurrence deduplication the specification describes, to compare with:
  a source is kept when no earlier source has its URI.
\<close>

fun firstOccurrences :: "jsstring list \<Rightarrow> WebSource list \<Rightarrow> WebSource list" where
  "firstOccurrences seen [] = []"
| "firstOccurrences seen (s # ss) =
     (if uri s \<in> set seen then firstOccurrences seen ss
      else s # firstOccurrences (uri s # seen) ss)"

text \<open>The grounding chunks of the specification's example.\<close>

definition exampleChunks :: "GroundingChunk list" where
  "exampleChunks =
     [\<lparr> web = Some \<lparr> web_uri = Some (js ''a''), web_title = Some (js ''A'') \<rparr> \<rparr>,
      \<lparr> web = Some \<lparr> web_uri = Some (js ''a''), web_title = Some (js ''A2'') \<rparr> \<rparr>,
      \<lparr> web = Some \<lparr> web_uri = None, web_title = None \<rparr> \<rparr>]"

text \<open>A response that carries these chunks.\<close>

definition exampleResponse :: GenerateContentResponse where
  "exampleResponse =
     \<lparr> response_text = Some (js ''{}''),
       candidates = Some [\<lparr> groundingMetadata = Some \<lparr> groundingChunks = Some exampleChunks \<rparr> \<rparr>] \<rparr>"

subsection \<open>The analysis\<close>

text \<open>
  \<open>analyzePlagiarism\<close>. The environment's key, the model behind
  \<open>ai.models.generateContent\<close> and \<open>JSON.parse\<close> are parameters. The function returns
  its outcome, the error thrown or the result, and the requests it has sent to the model.
  (The only caller passes all four arguments, so the default values are not used.)
\<close>

definition analyzePlagiarism ::
  "jsstring option \<Rightarrow>
   (GoogleGenAI \<Rightarrow> GenerateContentParameters \<Rightarrow> GenerateContentResponse awaited) \<Rightarrow>
   (jsstring \<Rightarrow> AnalysisResult option) \<Rightarrow>
   jsstring \<Rightarrow> ReferenceItem list \<Rightarrow> jsstring \<Rightarrow> bool \<Rightarrow>
   (error + AnalysisResult) \<times> GenerateContentParameters list" where
  "analyzePlagiarism API_KEY generateContent JSON_parse documentText references documentType enableWebSearch =
     (case getClient API_KEY of
        Inl e \<Rightarrow> (Inl e, [])
      | Inr ai \<Rightarrow>
          (let prompt = buildPrompt documentText references documentType enableWebSearch;
               request = \<lparr> model = js ''gemini-3-pro-preview'', contents = prompt,
                           config = buildConfig enableWebSearch \<rparr>
           in case generateContent ai request of
                Rejects e \<Rightarrow> (Inl e, [request])
              | Resolves response \<Rightarrow>
                  (case response_text response of
                     None \<Rightarrow> (Inl (Error (js ''No response generated from AI'')), [request])
                   | Some text0 \<Rightarrow>
                       if text0 = [] then (Inl (Error (js ''No response generated from AI'')), [request])
                       else (case parseCleaned JSON_parse text0 of
                               Inl e \<Rightarrow> (Inl e, [request])
                             | Inr result \<Rightarrow>
                                 (Inr (attachWebSources enableWebSearch response result), [request])))))"

section \<open>Application state: \<open>App.tsx\<close>\<close>

text \<open>
  The state variables of \<open>App\<close>, each with the prefix \<open>app_\<close>. \<open>handleAnalyze\<close> only
  reads the references, so they are the records themselves here.
\<close>

record AppState =
  app_documentText :: jsstring
  app_documentType :: jsstring
  app_references :: "ReferenceItem list"
  app_isAnalyzing :: bool
  app_result :: "AnalysisResult option"
  app_error :: "jsstring option"
  app_isProcessingFile :: bool
  app_useWebSearch :: bool

type_synonym analysisCall = "jsstring \<times> ReferenceItem list \<times> jsstring \<times> bool"

text \<open>
  \<open>handleAnalyze\<close>. The Analysis Client \<open>analyzePlagiarism\<close> is the parameter \<open>analyze\<close>.
  The function returns the state when the handler is done and the calls it has made
  to the client.
\<close>

definition handleAnalyze ::
  "(jsstring \<Rightarrow> ReferenceItem list \<Rightarrow> jsstring \<Rightarrow> bool \<Rightarrow> error + AnalysisResult) \<Rightarrow>
   AppState \<Rightarrow> AppState \<times> analysisCall list" where
  "handleAnalyze analyze st =
     (if trim (app_documentText st) = []
      then (st\<lparr> app_error := Some (js ''Please enter the document text.'') \<rparr>, [])
      else
        (let hasReferences = (length (app_references st) > 0 \<and>
                              list_ex (\<lambda>r. trim (ref_text r) \<noteq> []) (app_references st))
         in if \<not> hasReferences \<and> \<not> app_useWebSearch st
            then (st\<lparr> app_error := Some (js ''Please add at least one reference text OR enable Web Search.'') \<rparr>, [])
            else
              (let st1 = st\<lparr> app_isAnalyzing := True, app_error := None, app_result := None \<rparr>;
                   call = (app_documentText st, app_references st, app_documentType st, app_useWebSearch st);
                   st2 = (case analyze (app_documentText st) (app_references st) (app_documentType st)
                                 (app_useWebSearch st) of
                            Inr data \<Rightarrow> st1\<lparr> app_result := Some data \<rparr>
                          | Inl err \<Rightarrow>
                              st1\<lparr> app_error := Some (if message err \<noteq> [] then message err
                                  else js ''An unexpected error occurred during analysis.'') \<rparr>)
               in (st2\<lparr> app_isAnalyzing := False \<rparr>, [call]))))"

text \<open>An example state: no references, nothing analysed yet.\<close>

definition exampleState :: "jsstring \<Rightarrow> bool \<Rightarrow> AppState" where
  "exampleState documentText useWebSearch =
     \<lparr> app_documentText = documentText, app_documentType = js ''Research Paper'',
       app_references = [], app_isAnalyzing = False, app_result = None, app_error = None,
       app_isProcessingFile = False, app_useWebSearch = useWebSearch \<rparr>"

section \<open>Result view: \<open>components/AnalysisView.tsx\<close>\<close>

text \<open>
  The component follows the types in the file \<open>App.tsx\<close> of the sources.
  \<open>getRiskColor\<close> and \<open>getRiskBg\<close> take the risk score, a JavaScript number, and return
  the CSS classes of the tier. The comparisons are against the integers 20, 50 and 80,
  which is exact on every finite double, so the score is a real number here; an
  infinite score compares as every score of 80 or more does. (\<open>JSON.parse\<close> gives no
  \<open>NaN\<close>.)
\<close>

definition getRiskColor :: "real \<Rightarrow> jsstring" where
  "getRiskColor score =
     (if score < 20 then js ''text-green-600''
      else if score < 50 then js ''text-yellow-600''
      else if score < 80 then js ''text-orange-600''
      else js ''text-red-600'')"

definition getRiskBg :: "real \<Rightarrow> jsstring" where
  "getRiskBg score =
     (if score < 20 then js ''bg-green-50 border-green-200''
      else if score < 50 then js ''bg-yellow-50 border-yellow-200''
      else if score < 80 then js ''bg-orange-50 border-orange-200''
      else js ''bg-red-50 border-red-200'')"

section \<open>Properties of the reference store\<close>

subsection \<open>Rendering the sequence number\<close>

lemma length_js [simp]: "length (js s) = length s"
  by (simp add: js_def)

lemma unat_digitChar: "d < 10 \<Longrightarrow> unat (digitChar d) = 48 + d"
  by (simp add: digitChar_def unat_of_nat del: of_nat_add)

lemma isDigit_digitChar: "d < 10 \<Longrightarrow> isDigit (digitChar d)"
  by (simp add: isDigit_def word_le_nat_alt unat_digitChar)

lemma decimalValue_snoc: "decimalValue (s @ [c]) = 10 * decimalValue s + (unat c - 48)"
  by (simp add: decimalValue_def)

lemma decimalValue_toString: "decimalValue (toString n) = n"
proof (induction n rule: toString.induct)
  case (1 n)
  show ?case
  proof (cases "n < 10")
    case True
    then show ?thesis
      by (simp add: toString.simps [of n] decimalValue_def unat_digitChar)
  next
    case False
    then have "decimalValue (toString n) = 10 * (n div 10) + n mod 10"
      using "1.IH" by (simp add: toString.simps [of n] decimalValue_snoc unat_digitChar)
    then show ?thesis by simp
  qed
qed

lemma digits_toString: "list_all isDigit (toString n)"
proof (induction n rule: toString.induct)
  case (1 n)
  show ?case
  proof (cases "n < 10")
    case True
    then show ?thesis by (simp add: toString.simps [of n] isDigit_digitChar)
  next
    case False
    then show ?thesis
      using "1.IH" by (simp add: toString.simps [of n] isDigit_digitChar)
  qed
qed

lemma length_toString_small: "n < 1000 \<Longrightarrow> length (toString n) \<le> 3"
proof -
  assume n: "n < 1000"
  have one: "length (toString k) = 1" if "k < 10" for k
    using that by (simp add: toString.simps [of k])
  have two: "length (toString k) \<le> 2" if "k < 100" for k
  proof (cases "k < 10")
    case True
    then show ?thesis by (simp add: one)
  next
    case False
    moreover have "k div 10 < 10" using that by simp
    ultimately show ?thesis by (simp add: toString.simps [of k] one)
  qed
  show ?thesis
  proof (cases "n < 10")
    case True
    then show ?thesis by (simp add: one)
  next
    case False
    moreover have "n div 10 < 100" using n by simp
    ultimately show ?thesis using two [of "n div 10"] by (simp add: toString.simps [of n])
  qed
qed

lemma concat_replicate_single: "concat (replicate k [c]) = replicate k c"
  by (induction k) simp_all

lemma padStart_zero: "padStart s n (js ''0'') = replicate (n - length s) 0x30 @ s"
  by (simp add: padStart_def js_def concat_replicate_single)

lemma decimalValue_zeros: "decimalValue (replicate k 0x30 @ s) = decimalValue s"
proof -
  have "foldl (\<lambda>acc c. 10 * acc + (unat c - 48)) 0 (replicate k (0x30 :: jschar)) = 0"
    by (induction k) simp_all
  then show ?thesis by (simp add: decimalValue_def)
qed

lemma isDigit_zero: "isDigit 0x30"
  by (simp add: isDigit_def)

lemma padded_number:
  "list_all isDigit (padStart (toString n) 3 (js ''0''))"
  "decimalValue (padStart (toString n) 3 (js ''0'')) = n"
  "3 \<le> length (padStart (toString n) 3 (js ''0''))"
  "n < 1000 \<Longrightarrow> length (padStart (toString n) 3 (js ''0'')) = 3"
proof -
  show "list_all isDigit (padStart (toString n) 3 (js ''0''))"
    using digits_toString [of n] by (auto simp: padStart_zero isDigit_zero list_all_iff)
  show "decimalValue (padStart (toString n) 3 (js ''0'')) = n"
    by (simp add: padStart_zero decimalValue_zeros decimalValue_toString)
  show "3 \<le> length (padStart (toString n) 3 (js ''0''))"
    by (simp add: padStart_zero)
  show "length (padStart (toString n) 3 (js ''0'')) = 3" if "n < 1000"
    using length_toString_small [OF that] by (simp add: padStart_zero)
qed

lemma toString_1000: "toString 1000 = js ''1000''"
  by code_simp

subsection \<open>The store stays valid\<close>

lemma valid_store_empty: "valid_store [] []"
  by (simp add: valid_store_def)

lemma valid_store_addReference:
  assumes "valid_store h references" and "addReference h references = (h', references')"
  shows "valid_store h' references'"
proof -
  from assms(2) have "length h' = Suc (length h)" and "references' = references @ [length h]"
    by (auto simp: addReference_def Let_def)
  moreover have "\<forall>a\<in>set references. a < length h"
    using assms(1) by (simp add: valid_store_def list_all_iff)
  ultimately show ?thesis
    by (auto simp: valid_store_def list_all_iff less_Suc_eq)
qed

lemma set_removed_subset:
  "set (map snd (filter P (enumerate n xs))) \<subseteq> set xs"
  by (auto simp: in_set_enumerate_eq)

lemma valid_store_removeReference:
  assumes "valid_store h references" and "removeReference h references i = (h', references')"
  shows "valid_store h' references'"
proof -
  from assms(2) have "h' = h"
    and "references' = map snd (filter (\<lambda>(j, _). j \<noteq> i) (enumerate 0 references))"
    by (auto simp: removeReference_def)
  then have "h' = h" and "set references' \<subseteq> set references"
    using set_removed_subset [of "\<lambda>(j, _). j \<noteq> i" 0 references] by simp_all
  then show ?thesis
    using assms(1) by (auto simp: valid_store_def list_all_iff)
qed

lemma valid_store_updateReference:
  assumes "valid_store h references"
    and "updateReference h references i fv = Some (h', references')"
  shows "valid_store h' references'"
proof -
  from assms(2) have "length h' = Suc (length h)" and "references' = references[i := length h]"
    by (auto simp: updateReference_def Let_def split: if_splits)
  moreover have "set (references[i := length h]) \<subseteq> insert (length h) (set references)"
    by (rule set_update_subset_insert)
  moreover have "\<forall>a\<in>set references. a < length h"
    using assms(1) by (simp add: valid_store_def list_all_iff)
  ultimately show ?thesis
    by (auto simp: valid_store_def list_all_iff less_Suc_eq)
qed

lemma deref_append_heap: "valid_store h references \<Longrightarrow> deref (h @ g) references = deref h references"
  by (induction references) (simp_all add: deref_def valid_store_def nth_append)

subsection \<open>Adding a reference\<close>

text \<open>
  C4, as the code has it. For every reference list, \<open>addReference\<close> appends one new record: the array handed
  to \<open>onUpdate\<close> is the old one followed by the address of one new object, no object
  of the store is changed, and the records read as the old records followed by the
  new one. The new record has the id \<open>REF-\<close> followed by the list length plus one
  zero-padded to three digits, the source type paper, the empty text, and is expanded.
  The characters after \<open>REF-\<close> are decimal digits that write the list length plus one,
  at least three of them, and exactly three while that number is below 1000: the
  padding adds zeros and never cuts a digit.
\<close>

theorem addReference_appends:
  assumes "valid_store h references"
  shows "case addReference h references of (h', references') \<Rightarrow>
           references' = references @ [length h] \<and>
           take (length h) h' = h \<and>
           deref h' references' = deref h references @
             [\<lparr> ref_id = js ''REF-'' @ padStart (toString (length references + 1)) 3 (js ''0''),
                sourceType = PAPER, ref_text = [], isExpanded = Some True \<rparr>] \<and>
           (let num = drop 4 (ref_id (last (deref h' references')))
            in list_all isDigit num \<and> decimalValue num = length references + 1 \<and>
               3 \<le> length num \<and> (length references + 1 < 1000 \<longrightarrow> length num = 3))"
proof -
  let ?new = "\<lparr> ref_id = js ''REF-'' @ padStart (toString (length references + 1)) 3 (js ''0''),
                sourceType = PAPER, ref_text = [], isExpanded = Some True \<rparr>"
  have add: "addReference h references = (h @ [?new], references @ [length h])"
    by (simp add: addReference_def js_def)
  have view: "deref (h @ [?new]) (references @ [length h]) = deref h references @ [?new]"
    using deref_append_heap [OF assms, of "[?new]"] by (simp add: deref_def)
  have num: "drop 4 (ref_id ?new) = padStart (toString (length references + 1)) 3 (js ''0'')"
    by simp
  show ?thesis
    unfolding add using view num padded_number [of "length references + 1"]
    by (simp add: Let_def)
qed

theorem addReference_appends_witness:
  "valid_store [\<lparr> ref_id = js ''REF-001'', sourceType = BOOK, ref_text = js ''abc'', isExpanded = Some False \<rparr>] [0] \<and>
   (case addReference [\<lparr> ref_id = js ''REF-001'', sourceType = BOOK, ref_text = js ''abc'', isExpanded = Some False \<rparr>] [0]
    of (h', references') \<Rightarrow>
      references' = [0, 1] \<and>
      deref h' references' =
        [\<lparr> ref_id = js ''REF-001'', sourceType = BOOK, ref_text = js ''abc'', isExpanded = Some False \<rparr>,
         \<lparr> ref_id = js ''REF-002'', sourceType = PAPER, ref_text = [], isExpanded = Some True \<rparr>])"
proof -
  let ?r = "\<lparr> ref_id = js ''REF-001'', sourceType = BOOK, ref_text = js ''abc'', isExpanded = Some False \<rparr>"
  have v: "valid_store [?r] [0]"
    by (simp add: valid_store_def)
  have n: "js ''REF-'' @ padStart (toString (length [0::nat] + 1)) 3 (js ''0'') = js ''REF-002''"
    by code_simp
  have d: "deref [?r] [0] = [?r]"
    by (simp add: deref_def)
  show ?thesis
    using addReference_appends [OF v] v unfolding n d
    by (cases "addReference [?r] [0]") simp
qed

text \<open>
  C4 as stated, with a three-digit number for every list, fails from 999 records on:
  the record added to a list of 999 gets the id \<open>REF-1000\<close>, with four digits.
\<close>

theorem addReference_four_digits:
  "valid_store
     (replicate 999 \<lparr> ref_id = js ''REF-001'', sourceType = PAPER, ref_text = js ''abc'', isExpanded = Some True \<rparr>)
     [0..<999] \<and>
   (case addReference
      (replicate 999 \<lparr> ref_id = js ''REF-001'', sourceType = PAPER, ref_text = js ''abc'', isExpanded = Some True \<rparr>)
      [0..<999]
    of (h', references') \<Rightarrow>
      ref_id (last (deref h' references')) = js ''REF-1000'' \<and>
      length (drop 4 (ref_id (last (deref h' references')))) = 4)"
proof -
  have "js ''REF-'' @ padStart (toString (length [0..<999::nat] + 1)) 3 (js ''0'') = js ''REF-1000''"
    by (simp add: toString_1000 padStart_def) (simp add: js_def)
  moreover have "length (drop 4 (js ''REF-1000'')) = 4"
    by (simp add: js_def)
  ultimately show ?thesis
    by (simp add: valid_store_def list_all_iff addReference_def deref_def nth_append)
qed

subsection \<open>Updating a field\<close>

text \<open>
  C5. For every reference list, valid index \<open>i\<close>, field and value, \<open>updateReference\<close>
  hands \<open>onUpdate\<close> an array of the same length; no object of the store is changed;
  entry \<open>i\<close> is a new object, the old record \<open>i\<close> with the field replaced; every other
  entry is the address it was, so the same object, with the record it had. The new
  object is written out for each field: the given value in that field (the id, the
  source type, the text or the expansion flag), and the old record's values in the
  other three.
\<close>

theorem updateReference_frame:
  assumes "valid_store h references" and "i < length references"
  shows "case updateReference h references i fv of
           None \<Rightarrow> False
         | Some (h', references') \<Rightarrow>
             length references' = length references \<and>
             take (length h) h' = h \<and>
             references' ! i = length h \<and>
             h' ! (references' ! i) = set_field fv (h ! (references ! i)) \<and>
             (case fv of
                Field_id v \<Rightarrow>
                  h' ! (references' ! i) =
                    \<lparr> ref_id = v, sourceType = sourceType (h ! (references ! i)),
                      ref_text = ref_text (h ! (references ! i)),
                      isExpanded = isExpanded (h ! (references ! i)) \<rparr>
              | Field_sourceType v \<Rightarrow>
                  h' ! (references' ! i) =
                    \<lparr> ref_id = ref_id (h ! (references ! i)), sourceType = v,
                      ref_text = ref_text (h ! (references ! i)),
                      isExpanded = isExpanded (h ! (references ! i)) \<rparr>
              | Field_text v \<Rightarrow>
                  h' ! (references' ! i) =
                    \<lparr> ref_id = ref_id (h ! (references ! i)),
                      sourceType = sourceType (h ! (references ! i)), ref_text = v,
                      isExpanded = isExpanded (h ! (references ! i)) \<rparr>
              | Field_isExpanded v \<Rightarrow>
                  h' ! (references' ! i) =
                    \<lparr> ref_id = ref_id (h ! (references ! i)),
                      sourceType = sourceType (h ! (references ! i)),
                      ref_text = ref_text (h ! (references ! i)), isExpanded = Some v \<rparr>) \<and>
             (\<forall>j < length references. j \<noteq> i \<longrightarrow>
                references' ! j = references ! j \<and> h' ! (references' ! j) = h ! (references ! j)) \<and>
             deref h' references' = (deref h references)[i := set_field fv (deref h references ! i)]"
proof -
  let ?obj = "set_field fv (h ! (references ! i))"
  have upd: "updateReference h references i fv = Some (h @ [?obj], references[i := length h])"
    using assms(2) by (simp add: updateReference_def)
  have old: "(h @ [?obj]) ! (references ! j) = h ! (references ! j)" if "j < length references" for j
  proof -
    have "references ! j < length h"
      using assms(1) that by (simp add: valid_store_def list_all_length)
    then show ?thesis by (simp add: nth_append)
  qed
  have view: "deref (h @ [?obj]) (references[i := length h]) =
              (deref h references)[i := set_field fv (deref h references ! i)]"
  proof (rule nth_equalityI)
    show "length (deref (h @ [?obj]) (references[i := length h])) =
          length ((deref h references)[i := set_field fv (deref h references ! i)])"
      by (simp add: deref_def)
  next
    fix j
    assume "j < length (deref (h @ [?obj]) (references[i := length h]))"
    then have j: "j < length references" by (simp add: deref_def)
    show "deref (h @ [?obj]) (references[i := length h]) ! j =
          (deref h references)[i := set_field fv (deref h references ! i)] ! j"
    proof (cases "j = i")
      case True
      then show ?thesis using assms(2) by (simp add: deref_def)
    next
      case False
      then show ?thesis using j old [OF j] by (simp add: deref_def)
    qed
  qed
  have new: "(h @ [?obj]) ! (references[i := length h] ! i) = ?obj"
    using assms(2) by simp
  have pinned:
    "case fv of
       Field_id v \<Rightarrow>
         ?obj = \<lparr> ref_id = v, sourceType = sourceType (h ! (references ! i)),
                  ref_text = ref_text (h ! (references ! i)),
                  isExpanded = isExpanded (h ! (references ! i)) \<rparr>
     | Field_sourceType v \<Rightarrow>
         ?obj = \<lparr> ref_id = ref_id (h ! (references ! i)), sourceType = v,
                  ref_text = ref_text (h ! (references ! i)),
                  isExpanded = isExpanded (h ! (references ! i)) \<rparr>
     | Field_text v \<Rightarrow>
         ?obj = \<lparr> ref_id = ref_id (h ! (references ! i)),
                  sourceType = sourceType (h ! (references ! i)), ref_text = v,
                  isExpanded = isExpanded (h ! (references ! i)) \<rparr>
     | Field_isExpanded v \<Rightarrow>
         ?obj = \<lparr> ref_id = ref_id (h ! (references ! i)),
                  sourceType = sourceType (h ! (references ! i)),
                  ref_text = ref_text (h ! (references ! i)), isExpanded = Some v \<rparr>"
    by (cases fv; cases "h ! (references ! i)") simp_all
  show ?thesis
    unfolding upd using assms(2) old view pinned
    by (simp add: new split: field_value.splits)
qed

theorem updateReference_frame_witness:
  "valid_store
     [\<lparr> ref_id = js ''REF-001'', sourceType = PAPER, ref_text = [], isExpanded = Some True \<rparr>,
      \<lparr> ref_id = js ''REF-002'', sourceType = PAPER, ref_text = [], isExpanded = Some True \<rparr>] [0, 1] \<and>
   (1::nat) < length [0::nat, 1] \<and>
   (case updateReference
      [\<lparr> ref_id = js ''REF-001'', sourceType = PAPER, ref_text = [], isExpanded = Some True \<rparr>,
       \<lparr> ref_id = js ''REF-002'', sourceType = PAPER, ref_text = [], isExpanded = Some True \<rparr>] [0, 1]
      1 (Field_text (js ''abc''))
    of None \<Rightarrow> False
     | Some (h', references') \<Rightarrow>
         length references' = 2 \<and> references' ! 0 = 0 \<and> references' ! 1 = 2 \<and>
         h' ! (references' ! 0) =
           \<lparr> ref_id = js ''REF-001'', sourceType = PAPER, ref_text = [], isExpanded = Some True \<rparr> \<and>
         h' ! (references' ! 1) =
           \<lparr> ref_id = js ''REF-002'', sourceType = PAPER, ref_text = js ''abc'', isExpanded = Some True \<rparr>) \<and>
   updateReference
     [\<lparr> ref_id = js ''REF-001'', sourceType = PAPER, ref_text = [], isExpanded = Some True \<rparr>,
      \<lparr> ref_id = js ''REF-002'', sourceType = PAPER, ref_text = [], isExpanded = Some True \<rparr>] [0, 1]
     1 (Field_text (js ''abc'')) =
   Some ([\<lparr> ref_id = js ''REF-001'', sourceType = PAPER, ref_text = [], isExpanded = Some True \<rparr>,
          \<lparr> ref_id = js ''REF-002'', sourceType = PAPER, ref_text = [], isExpanded = Some True \<rparr>,
          \<lparr> ref_id = js ''REF-002'', sourceType = PAPER, ref_text = js ''abc'', isExpanded = Some True \<rparr>],
         [0, 2])"
proof -
  let ?h = "[\<lparr> ref_id = js ''REF-001'', sourceType = PAPER, ref_text = [], isExpanded = Some True \<rparr>,
             \<lparr> ref_id = js ''REF-002'', sourceType = PAPER, ref_text = [], isExpanded = Some True \<rparr>]"
  have v: "valid_store ?h [0, 1]"
    by (simp add: valid_store_def)
  have i: "(1::nat) < length [0::nat, 1]"
    by simp
  note T = updateReference_frame [OF v i, of "Field_text (js ''abc'')"]
  obtain h' references' where u: "updateReference ?h [0, 1] 1 (Field_text (js ''abc'')) = Some (h', references')"
    using T by (auto split: option.splits)
  have fromT: "length references' = 2 \<and> references' ! 0 = 0 \<and> references' ! 1 = 2 \<and>
      h' ! (references' ! 0) =
        \<lparr> ref_id = js ''REF-001'', sourceType = PAPER, ref_text = [], isExpanded = Some True \<rparr> \<and>
      h' ! (references' ! 1) =
        \<lparr> ref_id = js ''REF-002'', sourceType = PAPER, ref_text = js ''abc'', isExpanded = Some True \<rparr>"
  proof -
    from T have new: "length references' = length [0::nat, 1]" "references' ! 1 = length ?h"
        "h' ! (references' ! 1) =
           \<lparr> ref_id = js ''REF-002'', sourceType = PAPER, ref_text = js ''abc'', isExpanded = Some True \<rparr>"
      and others: "\<forall>j < length [0::nat, 1]. j \<noteq> 1 \<longrightarrow>
           references' ! j = [0::nat, 1] ! j \<and> h' ! (references' ! j) = ?h ! ([0::nat, 1] ! j)"
      unfolding u by auto
    from others [rule_format, of 0] have "references' ! 0 = 0"
      and "h' ! (references' ! 0) =
        \<lparr> ref_id = js ''REF-001'', sourceType = PAPER, ref_text = [], isExpanded = Some True \<rparr>"
      by auto
    with new show ?thesis by simp
  qed
  have "updateReference ?h [0, 1] 1 (Field_text (js ''abc'')) =
        Some (?h @ [\<lparr> ref_id = js ''REF-002'', sourceType = PAPER, ref_text = js ''abc'', isExpanded = Some True \<rparr>], [0, 2])"
    using u by (simp add: updateReference_def numeral_2_eq_2)
  with v i u fromT show ?thesis by simp
qed

subsection \<open>Generated ids can repeat\<close>

text \<open>
  C10. The generated ids are not unique across a session. From the empty store: add, add,
  remove index 0, add. After the removal the one record left has the id \<open>REF-002\<close>; the
  last add computes its id from the length 1 and generates \<open>REF-002\<close> again, an id that
  a record of the list already bears. The store then holds two different objects with the
  same id.
\<close>

theorem reference_ids_not_unique:
  "(let (h1, r1) = addReference [] [];
        (h2, r2) = addReference h1 r1;
        (h3, r3) = removeReference h2 r2 0;
        (h4, r4) = addReference h3 r3
    in map ref_id (deref h2 r2) = [js ''REF-001'', js ''REF-002''] \<and>
       map ref_id (deref h3 r3) = [js ''REF-002''] \<and>
       ref_id (last (deref h4 r4)) \<in> set (map ref_id (deref h3 r3)) \<and>
       map ref_id (deref h4 r4) = [js ''REF-002'', js ''REF-002''] \<and>
       distinct r4 \<and>
       \<not> distinct (map ref_id (deref h4 r4)))"
  by code_simp

section \<open>Properties of the text extraction\<close>

lemma extractPages_readable:
  "list_all (\<lambda>j. pageItems pdf j \<noteq> None) [i..<Suc (numPages pdf)] \<Longrightarrow>
   extractPages pdf i fullText =
     Resolves (fullText @ concat (map (\<lambda>j. (case pageItems pdf j of None \<Rightarrow> [] | Some its \<Rightarrow> join (map str its) (js '' ''))
                                      @ js ''\<newline>\<newline>'') [i..<Suc (numPages pdf)]))"
proof (induction pdf i fullText rule: extractPages.induct)
  case (1 pdf i fullText)
  show ?case
  proof (cases "i \<le> numPages pdf")
    case False
    then show ?thesis by (simp add: extractPages.simps [of pdf i])
  next
    case True
    then have range: "[i..<Suc (numPages pdf)] = i # [i + 1..<Suc (numPages pdf)]"
      by (simp add: upt_conv_Cons)
    from "1.prems" range obtain its where its: "pageItems pdf i = Some its"
      and rest: "list_all (\<lambda>j. pageItems pdf j \<noteq> None) [i + 1..<Suc (numPages pdf)]"
      by auto
    from its obtain page textContent where page: "getPage pdf i = Resolves page"
      and content: "getTextContent page = Resolves textContent" and items: "items textContent = its"
      by (auto simp: pageItems_def split: awaited.splits)
    have "extractPages pdf i fullText =
          extractPages pdf (i + 1) (fullText @ join (map str its) (js '' '') @ js ''\<newline>\<newline>'')"
      using True page content items by (simp add: extractPages.simps [of pdf i])
    also have "\<dots> = Resolves ((fullText @ join (map str its) (js '' '') @ js ''\<newline>\<newline>'') @
        concat (map (\<lambda>j. (case pageItems pdf j of None \<Rightarrow> [] | Some its \<Rightarrow> join (map str its) (js '' ''))
                                      @ js ''\<newline>\<newline>'') [i + 1..<Suc (numPages pdf)]))"
      using "1.IH" [OF True page content refl rest] items by simp
    finally show ?thesis
      by (simp only: range list.map concat.simps its option.case append_assoc)
  qed
qed

lemma extractPages_unreadable:
  "\<not> list_all (\<lambda>j. pageItems pdf j \<noteq> None) [i..<Suc (numPages pdf)] \<Longrightarrow>
   \<exists>e. extractPages pdf i fullText = Rejects e"
proof (induction pdf i fullText rule: extractPages.induct)
  case (1 pdf i fullText)
  show ?case
  proof (cases "i \<le> numPages pdf")
    case False
    then show ?thesis using "1.prems" by simp
  next
    case True
    then have range: "[i..<Suc (numPages pdf)] = i # [i + 1..<Suc (numPages pdf)]"
      by (simp add: upt_conv_Cons)
    show ?thesis
    proof (cases "getPage pdf i")
      case (Rejects e)
      then show ?thesis using True by (simp add: extractPages.simps [of pdf i])
    next
      case page: (Resolves page)
      show ?thesis
      proof (cases "getTextContent page")
        case (Rejects e)
        then show ?thesis using True page by (simp add: extractPages.simps [of pdf i])
      next
        case content: (Resolves textContent)
        then have "pageItems pdf i \<noteq> None"
          using page by (simp add: pageItems_def)
        then have "\<not> list_all (\<lambda>j. pageItems pdf j \<noteq> None) [i + 1..<Suc (numPages pdf)]"
          using "1.prems" range by simp
        from "1.IH" [OF True page content refl this] show ?thesis
          using True page content by (simp add: extractPages.simps [of pdf i])
      qed
    qed
  qed
qed

lemma concat_terminated:
  "ts \<noteq> [] \<Longrightarrow> concat (map (\<lambda>t. t @ sep) ts) = join ts sep @ sep"
  by (induction ts sep rule: join.induct) simp_all

lemma twoPages_facts:
  "readablePdf twoPages"
  "pageTexts twoPages = [js ''Hello world'', js ''second'']"
  "opened (\<lambda>data. Resolves twoPages) \<lparr> arrayBuffer = Resolves () \<rparr> = Some twoPages"
  "0 < numPages twoPages"
  by (simp_all add: readablePdf_def pageTexts_def pageItems_def twoPages_def opened_def js_def
      upt_conv_Cons)

text \<open>
  C9, as the code has it. For every readable document the extraction returns the texts of
  the pages in page order, each page's items joined by one space and each page followed
  by a blank line (two line feeds), the last page too: for a document with a page, the
  page texts joined by a blank line and one more blank line at the end. A file whose
  bytes cannot be read, a document that cannot be opened, or one with a page that cannot
  be read, makes the extraction fail with the error whose message asks for a text-based
  PDF.
\<close>

theorem extractTextFromPdf_result:
  "(\<forall>pdf. opened getDocument file = Some pdf \<and> readablePdf pdf \<longrightarrow>
      extractTextFromPdf getDocument file =
        Inr (concat (map (\<lambda>t. t @ js ''\<newline>\<newline>'') (pageTexts pdf))) \<and>
      (0 < numPages pdf \<longrightarrow>
         extractTextFromPdf getDocument file =
           Inr (join (pageTexts pdf) (js ''\<newline>\<newline>'') @ js ''\<newline>\<newline>''))) \<and>
   (opened getDocument file = None \<or> (\<exists>pdf. opened getDocument file = Some pdf \<and> \<not> readablePdf pdf) \<longrightarrow>
      extractTextFromPdf getDocument file =
        Inl (Error (js ''Failed to extract text from PDF. Please ensure it is a valid text-based PDF.'')))"
proof (intro conjI allI impI)
  fix pdf
  assume a: "opened getDocument file = Some pdf \<and> readablePdf pdf"
  then obtain data where data: "arrayBuffer file = Resolves data" and doc: "getDocument data = Resolves pdf"
    by (auto simp: opened_def split: awaited.splits)
  have "extractPages pdf 1 [] =
        Resolves ([] @ concat (map (\<lambda>j. (case pageItems pdf j of None \<Rightarrow> [] | Some its \<Rightarrow> join (map str its) (js '' ''))
                                      @ js ''\<newline>\<newline>'') [1..<Suc (numPages pdf)]))"
    using a by (intro extractPages_readable) (simp add: readablePdf_def)
  also have "\<dots> = Resolves (concat (map (\<lambda>t. t @ js ''\<newline>\<newline>'') (pageTexts pdf)))"
    by (simp add: pageTexts_def comp_def)
  finally show r: "extractTextFromPdf getDocument file =
        Inr (concat (map (\<lambda>t. t @ js ''\<newline>\<newline>'') (pageTexts pdf)))"
    using data doc by (simp add: extractTextFromPdf_def)
  assume "0 < numPages pdf"
  then have "pageTexts pdf \<noteq> []"
    by (simp add: pageTexts_def)
  then show "extractTextFromPdf getDocument file =
           Inr (join (pageTexts pdf) (js ''\<newline>\<newline>'') @ js ''\<newline>\<newline>'')"
    using r by (simp add: concat_terminated)
next
  assume "opened getDocument file = None \<or> (\<exists>pdf. opened getDocument file = Some pdf \<and> \<not> readablePdf pdf)"
  then show "extractTextFromPdf getDocument file =
        Inl (Error (js ''Failed to extract text from PDF. Please ensure it is a valid text-based PDF.''))"
  proof
    assume "opened getDocument file = None"
    then show ?thesis
      by (auto simp: opened_def extractTextFromPdf_def split: awaited.splits)
  next
    assume "\<exists>pdf. opened getDocument file = Some pdf \<and> \<not> readablePdf pdf"
    then obtain pdf where o: "opened getDocument file = Some pdf" and n: "\<not> readablePdf pdf"
      by blast
    from o obtain data where data: "arrayBuffer file = Resolves data" and doc: "getDocument data = Resolves pdf"
      by (auto simp: opened_def split: awaited.splits)
    from n obtain e where "extractPages pdf 1 [] = Rejects e"
      using extractPages_unreadable [of pdf 1 "[]"] by (auto simp: readablePdf_def)
    then show ?thesis
      using data doc by (simp add: extractTextFromPdf_def)
  qed
qed

theorem extractTextFromPdf_result_witness:
  "opened (\<lambda>data. Resolves twoPages) \<lparr> arrayBuffer = Resolves () \<rparr> = Some twoPages \<and>
   readablePdf twoPages \<and> 0 < numPages twoPages \<and>
   extractTextFromPdf (\<lambda>data. Resolves twoPages) \<lparr> arrayBuffer = Resolves () \<rparr> =
     Inr (js ''Hello world\<newline>\<newline>second\<newline>\<newline>'') \<and>
   opened (\<lambda>data. Rejects (Error (js ''Invalid PDF structure''))) \<lparr> arrayBuffer = Resolves () \<rparr> = None \<and>
   extractTextFromPdf (\<lambda>data. Rejects (Error (js ''Invalid PDF structure''))) \<lparr> arrayBuffer = Resolves () \<rparr> =
     Inl (Error (js ''Failed to extract text from PDF. Please ensure it is a valid text-based PDF.''))"
proof -
  have n: "opened (\<lambda>data. Rejects (Error (js ''Invalid PDF structure''))) \<lparr> arrayBuffer = Resolves () \<rparr> = None"
    by (simp add: opened_def)
  have j: "join [js ''Hello world'', js ''second''] (js ''\<newline>\<newline>'') @ js ''\<newline>\<newline>'' =
           js ''Hello world\<newline>\<newline>second\<newline>\<newline>''"
    by (simp add: js_def)
  show ?thesis
    using extractTextFromPdf_result [of "\<lambda>data. Resolves twoPages" "\<lparr> arrayBuffer = Resolves () \<rparr>"]
      extractTextFromPdf_result [of "\<lambda>data. Rejects (Error (js ''Invalid PDF structure''))" "\<lparr> arrayBuffer = Resolves () \<rparr>"]
      twoPages_facts n j
    by simp
qed

text \<open>
  C9 as stated, with the pages joined by a blank line, fails on the two-page example:
  the extraction ends with a blank line that a join does not produce.
\<close>

theorem extractTextFromPdf_not_joined:
  "readablePdf twoPages \<and>
   extractTextFromPdf (\<lambda>data. Resolves twoPages) \<lparr> arrayBuffer = Resolves () \<rparr> =
     Inr (js ''Hello world\<newline>\<newline>second\<newline>\<newline>'') \<and>
   join (pageTexts twoPages) (js ''\<newline>\<newline>'') = js ''Hello world\<newline>\<newline>second'' \<and>
   extractTextFromPdf (\<lambda>data. Resolves twoPages) \<lparr> arrayBuffer = Resolves () \<rparr> \<noteq>
     Inr (join (pageTexts twoPages) (js ''\<newline>\<newline>''))"
  by (simp add: extractTextFromPdf_def extractPages.simps twoPages_def readablePdf_def pageTexts_def
      pageItems_def js_def upt_conv_Cons)

section \<open>Properties of the analysis client\<close>

subsection \<open>The credential\<close>

lemma getClient_falsy: "\<not> truthy API_KEY \<Longrightarrow> getClient API_KEY = Inl (Error (js ''API Key is missing''))"
  by (simp add: getClient_def truthy_def split: option.splits)

lemma getClient_truthy: "truthy API_KEY \<Longrightarrow> \<exists>ai. getClient API_KEY = Inr ai"
  by (simp add: getClient_def truthy_def split: option.splits)

text \<open>
  C7. For every input, with no API key in the environment (undefined or empty)
  \<open>analyzePlagiarism\<close> fails with the error \<open>API Key is missing\<close> and has sent no request
  to the model. The key is read by the call itself, in \<open>getClient\<close>: the failure is the
  outcome of the request, and with a key the same call does send its request.
\<close>

theorem analyzePlagiarism_missing_key:
  "(\<not> truthy API_KEY \<longrightarrow>
      analyzePlagiarism API_KEY generateContent JSON_parse documentText references documentType enableWebSearch =
        (Inl (Error (js ''API Key is missing'')), [])) \<and>
   (truthy API_KEY \<longrightarrow>
      length (snd (analyzePlagiarism API_KEY generateContent JSON_parse documentText references documentType
                     enableWebSearch)) = 1)"
proof (intro conjI impI)
  assume "\<not> truthy API_KEY"
  then show "analyzePlagiarism API_KEY generateContent JSON_parse documentText references documentType enableWebSearch =
        (Inl (Error (js ''API Key is missing'')), [])"
    by (simp add: analyzePlagiarism_def getClient_falsy)
next
  assume "truthy API_KEY"
  then obtain ai where "getClient API_KEY = Inr ai"
    using getClient_truthy by blast
  then show "length (snd (analyzePlagiarism API_KEY generateContent JSON_parse documentText references documentType
                     enableWebSearch)) = 1"
    by (simp add: analyzePlagiarism_def Let_def split: awaited.splits option.splits sum.splits)
qed

theorem analyzePlagiarism_missing_key_witness:
  "\<not> truthy None \<and> \<not> truthy (Some (js '''')) \<and> truthy (Some (js ''k'')) \<and>
   analyzePlagiarism None (\<lambda>ai request. Resolves \<lparr> response_text = Some (js ''{}''), candidates = None \<rparr>)
     (\<lambda>t. None) (js ''Some text'') [] (js ''Research Paper'') True =
     (Inl (Error (js ''API Key is missing'')), []) \<and>
   analyzePlagiarism (Some (js '''')) (\<lambda>ai request. Resolves \<lparr> response_text = Some (js ''{}''), candidates = None \<rparr>)
     (\<lambda>t. None) (js ''Some text'') [] (js ''Research Paper'') True =
     (Inl (Error (js ''API Key is missing'')), []) \<and>
   length (snd (analyzePlagiarism (Some (js ''k'')) (\<lambda>ai request. Resolves \<lparr> response_text = Some (js ''{}''), candidates = None \<rparr>)
     (\<lambda>t. None) (js ''Some text'') [] (js ''Research Paper'') True)) = 1"
proof -
  have t: "\<not> truthy None" "\<not> truthy (Some (js ''''))" "truthy (Some (js ''k''))"
    by (simp_all add: truthy_def js_def)
  show ?thesis
    using t
      analyzePlagiarism_missing_key [of None "\<lambda>ai request. Resolves \<lparr> response_text = Some (js ''{}''), candidates = None \<rparr>"
        "\<lambda>t. None" "js ''Some text''" "[]" "js ''Research Paper''" True]
      analyzePlagiarism_missing_key [of "Some (js '''')" "\<lambda>ai request. Resolves \<lparr> response_text = Some (js ''{}''), candidates = None \<rparr>"
        "\<lambda>t. None" "js ''Some text''" "[]" "js ''Research Paper''" True]
      analyzePlagiarism_missing_key [of "Some (js ''k'')" "\<lambda>ai request. Resolves \<lparr> response_text = Some (js ''{}''), candidates = None \<rparr>"
        "\<lambda>t. None" "js ''Some text''" "[]" "js ''Research Paper''" True]
    by simp
qed

subsection \<open>Web sources\<close>

lemma map_of_mapSet: "map_of (mapSet m k v) = (map_of m)(k \<mapsto> v)"
  by (induction m k v rule: mapSet.induct) auto

lemma keys_mapSet:
  "map fst (mapSet m k v) = (if k \<in> set (map fst m) then map fst m else map fst m @ [k])"
  by (induction m k v rule: mapSet.induct) auto

lemma distinct_mapSet: "distinct (map fst m) \<Longrightarrow> distinct (map fst (mapSet m k v))"
  by (simp add: keys_mapSet)

lemma firstOccurrences_cong:
  "set a = set b \<Longrightarrow> firstOccurrences a ss = firstOccurrences b ss"
proof (induction ss arbitrary: a b)
  case Nil
  then show ?case by simp
next
  case (Cons s ss)
  have "firstOccurrences (uri s # a) ss = firstOccurrences (uri s # b) ss"
    using Cons.prems by (intro Cons.IH) simp
  then show ?case
    using Cons.prems Cons.IH [of a b] by simp
qed

lemma keys_foldl:
  "map fst (foldl (\<lambda>m (k, v). mapSet m k v) m (map (\<lambda>s. (uri s, s)) ss)) =
   map fst m @ map uri (firstOccurrences (map fst m) ss)"
proof (induction ss arbitrary: m)
  case Nil
  then show ?case by simp
next
  case (Cons s ss)
  show ?case
  proof (cases "uri s \<in> set (map fst m)")
    case True
    then show ?thesis
      using Cons.IH [of "mapSet m (uri s) s"] by (simp add: keys_mapSet)
  next
    case False
    have "firstOccurrences (map fst m @ [uri s]) ss = firstOccurrences (uri s # map fst m) ss"
      by (rule firstOccurrences_cong) simp
    then show ?thesis
      using False Cons.IH [of "mapSet m (uri s) s"] by (simp add: keys_mapSet)
  qed
qed

lemma distinct_foldl:
  "distinct (map fst m) \<Longrightarrow> distinct (map fst (foldl (\<lambda>m (k, v). mapSet m k v) m es))"
  by (induction es arbitrary: m) (auto simp: distinct_mapSet)

lemma map_of_foldl:
  "map_of (foldl (\<lambda>m (k, v). mapSet m k v) m es) = map_of m ++ map_of (rev es)"
proof (induction es arbitrary: m)
  case Nil
  then show ?case by simp
next
  case (Cons e es)
  obtain k v where e: "e = (k, v)" by (cases e)
  have "map_of (foldl (\<lambda>m (k, v). mapSet m k v) m (e # es)) = map_of (mapSet m k v) ++ map_of (rev es)"
    using Cons.IH [of "mapSet m k v"] by (simp add: e)
  also have "\<dots> = (map_of m)(k \<mapsto> v) ++ map_of (rev es)"
    by (simp only: map_of_mapSet)
  also have "\<dots> = map_of m ++ map_of (rev (e # es))"
    by (simp add: e map_add_def fun_eq_iff split: option.splits)
  finally show ?case .
qed

lemma map_of_last:
  "map_of (rev (map (\<lambda>s. (f s, s)) ss)) k =
   (if filter (\<lambda>w. f w = k) ss = [] then None else Some (last (filter (\<lambda>w. f w = k) ss)))"
  by (induction ss rule: rev_induct) auto

lemma values_by_keys:
  "distinct (map fst m) \<Longrightarrow> map snd m = map (\<lambda>k. the (map_of m k)) (map fst m)"
proof (induction m)
  case Nil
  then show ?case by simp
next
  case (Cons e m)
  then have "\<forall>k\<in>set (map fst m). map_of (e # m) k = map_of m k"
    by (cases e) auto
  then have "map (\<lambda>k. the (map_of (e # m) k)) (map fst m) = map (\<lambda>k. the (map_of m k)) (map fst m)"
    by (simp cong: map_cong)
  then show ?case
    using Cons by (cases e) simp
qed

lemma firstOccurrences_subset: "set (firstOccurrences seen ss) \<subseteq> set ss"
  by (induction seen ss rule: firstOccurrences.induct) auto

lemma uniqueSources_eq:
  "uniqueSources ss = map (\<lambda>f. last (filter (\<lambda>w. uri w = uri f) ss)) (firstOccurrences [] ss)"
proof -
  let ?m = "newMap (map (\<lambda>s. (uri s, s)) ss)"
  have keys: "map fst ?m = map uri (firstOccurrences [] ss)"
    using keys_foldl [of "[]" ss] by (simp add: newMap_def)
  have "distinct (map fst ?m)"
    unfolding newMap_def by (rule distinct_foldl) simp
  then have "map snd ?m = map (\<lambda>k. the (map_of ?m k)) (map fst ?m)"
    by (rule values_by_keys)
  also have "\<dots> = map (\<lambda>f. the (map_of ?m (uri f))) (firstOccurrences [] ss)"
    by (simp add: keys comp_def)
  also have "\<dots> = map (\<lambda>f. last (filter (\<lambda>w. uri w = uri f) ss)) (firstOccurrences [] ss)"
  proof (rule map_cong [OF refl])
    fix f
    assume "f \<in> set (firstOccurrences [] ss)"
    then have "f \<in> set ss"
      using firstOccurrences_subset by blast
    then have "filter (\<lambda>w. uri w = uri f) ss \<noteq> []"
      by (auto simp: filter_empty_conv)
    then show "the (map_of ?m (uri f)) = last (filter (\<lambda>w. uri w = uri f) ss)"
      by (simp add: newMap_def map_of_foldl map_of_last)
  qed
  finally show ?thesis
    by (simp add: uniqueSources_def mapValues_def)
qed

lemma uniqueSources_uris:
  "map uri (uniqueSources ss) = map uri (firstOccurrences [] ss)"
  "distinct (map uri (uniqueSources ss))"
proof -
  have keys: "map fst (newMap (map (\<lambda>s. (uri s, s)) ss)) = map uri (firstOccurrences [] ss)"
    using keys_foldl [of "[]" ss] by (simp add: newMap_def)
  have d: "distinct (map fst (newMap (map (\<lambda>s. (uri s, s)) ss)))"
    unfolding newMap_def by (rule distinct_foldl) simp
  have "\<forall>f\<in>set (firstOccurrences [] ss). uri (last (filter (\<lambda>w. uri w = uri f) ss)) = uri f"
  proof
    fix f
    assume "f \<in> set (firstOccurrences [] ss)"
    then have "f \<in> set ss"
      using firstOccurrences_subset by blast
    then have "filter (\<lambda>w. uri w = uri f) ss \<noteq> []"
      by (auto simp: filter_empty_conv)
    then have "last (filter (\<lambda>w. uri w = uri f) ss) \<in> set (filter (\<lambda>w. uri w = uri f) ss)"
      by (rule last_in_set)
    then show "uri (last (filter (\<lambda>w. uri w = uri f) ss)) = uri f"
      by simp
  qed
  then show u: "map uri (uniqueSources ss) = map uri (firstOccurrences [] ss)"
    by (simp add: uniqueSources_eq comp_def cong: map_cong)
  show "distinct (map uri (uniqueSources ss))"
    using d by (simp add: u keys)
qed

lemma webSourceOf_titled:
  "web c = Some w \<and> web_uri w = Some u \<and> u \<noteq> [] \<and> web_title w = Some t \<and> t \<noteq> [] \<longrightarrow>
     webSourceOf c = Some \<lparr> uri = u, title = t \<rparr>"
  by (auto simp: webSourceOf_def)

lemma webSourceOf_untitled:
  "web c = Some w \<and> web_uri w = Some u \<and> u \<noteq> [] \<and> \<not> truthy (web_title w) \<longrightarrow>
     webSourceOf c = Some \<lparr> uri = u, title = u \<rparr>"
  by (auto simp: webSourceOf_def truthy_def split: option.splits)

lemma webSourceOf_dropped:
  "web c = None \<or> (\<exists>w. web c = Some w \<and> \<not> truthy (web_uri w)) \<longrightarrow> webSourceOf c = None"
  by (auto simp: webSourceOf_def truthy_def split: option.splits)

lemma exampleChunks_sources:
  "List.map_filter webSourceOf exampleChunks =
     [\<lparr> uri = js ''a'', title = js ''A'' \<rparr>, \<lparr> uri = js ''a'', title = js ''A2'' \<rparr>]"
  by (simp add: exampleChunks_def List.map_filter_simps webSourceOf_def js_def)

lemma exampleChunks_result:
  "extractWebSources exampleChunks = [\<lparr> uri = js ''a'', title = js ''A2'' \<rparr>]"
  by (simp add: extractWebSources_def exampleChunks_sources uniqueSources_def newMap_def mapValues_def)

text \<open>
  C2, as the code has it. The chunks with a non-empty web URI are mapped to a source with
  that URI and the chunk's title, or the URI for a title when the title is absent or
  empty; chunks without a web entry or without a URI are dropped. The sources are
  deduplicated by URI through a \<open>Map\<close>: the URIs of the result are distinct and stand in
  first-seen order, and each URI carries the last source that bears it, not the first.
  With web search on and grounding chunks in the response the list is attached as
  \<open>webSources\<close>; otherwise the result is left as parsed. For the example chunks the
  list is the one source with URI \<open>a\<close> and title \<open>A2\<close>.
\<close>

theorem extractWebSources_dedup:
  "extractWebSources chunks =
     map (\<lambda>f. last (filter (\<lambda>w. uri w = uri f) (List.map_filter webSourceOf chunks)))
       (firstOccurrences [] (List.map_filter webSourceOf chunks)) \<and>
   map uri (extractWebSources chunks) = map uri (firstOccurrences [] (List.map_filter webSourceOf chunks)) \<and>
   distinct (map uri (extractWebSources chunks)) \<and>
   (web c = Some w \<and> web_uri w = Some u \<and> u \<noteq> [] \<and> web_title w = Some t \<and> t \<noteq> [] \<longrightarrow>
      webSourceOf c = Some \<lparr> uri = u, title = t \<rparr>) \<and>
   (web c = Some w \<and> web_uri w = Some u \<and> u \<noteq> [] \<and> \<not> truthy (web_title w) \<longrightarrow>
      webSourceOf c = Some \<lparr> uri = u, title = u \<rparr>) \<and>
   (web c = None \<or> (\<exists>w. web c = Some w \<and> \<not> truthy (web_uri w)) \<longrightarrow> webSourceOf c = None) \<and>
   (groundingChunksOf response = Some chunks \<longrightarrow>
      attachWebSources True response result = result\<lparr> webSources := Some (extractWebSources chunks) \<rparr>) \<and>
   (groundingChunksOf response = None \<longrightarrow> attachWebSources True response result = result) \<and>
   attachWebSources False response result = result \<and>
   extractWebSources exampleChunks = [\<lparr> uri = js ''a'', title = js ''A2'' \<rparr>]"
proof -
  have a: "groundingChunksOf response = Some chunks \<longrightarrow>
      attachWebSources True response result = result\<lparr> webSources := Some (extractWebSources chunks) \<rparr>"
    "groundingChunksOf response = None \<longrightarrow> attachWebSources True response result = result"
    "attachWebSources False response result = result"
    by (simp_all add: attachWebSources_def)
  show ?thesis
    using uniqueSources_eq [of "List.map_filter webSourceOf chunks"]
      uniqueSources_uris [of "List.map_filter webSourceOf chunks"]
      webSourceOf_titled [of c w u t] webSourceOf_untitled [of c w u] webSourceOf_dropped [of c]
      a exampleChunks_result
    unfolding extractWebSources_def [symmetric]
    by blast
qed

theorem extractWebSources_dedup_witness:
  "web (exampleChunks ! 1) = Some \<lparr> web_uri = Some (js ''a''), web_title = Some (js ''A2'') \<rparr> \<and>
   webSourceOf (exampleChunks ! 1) = Some \<lparr> uri = js ''a'', title = js ''A2'' \<rparr> \<and>
   (\<exists>w. web (exampleChunks ! 2) = Some w \<and> \<not> truthy (web_uri w)) \<and>
   webSourceOf (exampleChunks ! 2) = None \<and>
   groundingChunksOf exampleResponse = Some exampleChunks \<and>
   webSources (attachWebSources True exampleResponse
      \<lparr> overall_plagiarism_risk = 10, category = minor_overlap, summary = [], matches = [], webSources = None \<rparr>) =
     Some [\<lparr> uri = js ''a'', title = js ''A2'' \<rparr>]"
proof -
  let ?r = "\<lparr> overall_plagiarism_risk = 10, category = minor_overlap, summary = [], matches = [], webSources = None \<rparr>"
  have c1: "web (exampleChunks ! 1) = Some \<lparr> web_uri = Some (js ''a''), web_title = Some (js ''A2'') \<rparr>"
    and c2: "\<exists>w. web (exampleChunks ! 2) = Some w \<and> \<not> truthy (web_uri w)"
    by (simp_all add: exampleChunks_def truthy_def)
  have ne: "js ''a'' \<noteq> []" "js ''A2'' \<noteq> []"
    by (simp_all add: js_def)
  have g: "groundingChunksOf exampleResponse = Some exampleChunks"
    by (simp add: groundingChunksOf_def exampleResponse_def)
  note T = extractWebSources_dedup [where chunks = exampleChunks and c = "exampleChunks ! 1"
      and w = "\<lparr> web_uri = Some (js ''a''), web_title = Some (js ''A2'') \<rparr>" and u = "js ''a''" and t = "js ''A2''"
      and response = exampleResponse and result = ?r]
  have one: "webSourceOf (exampleChunks ! 1) = Some \<lparr> uri = js ''a'', title = js ''A2'' \<rparr>"
    using T c1 ne by simp
  have "attachWebSources True exampleResponse ?r = ?r\<lparr> webSources := Some (extractWebSources exampleChunks) \<rparr>"
    using T g by blast
  moreover have "extractWebSources exampleChunks = [\<lparr> uri = js ''a'', title = js ''A2'' \<rparr>]"
    using T by blast
  ultimately have att: "webSources (attachWebSources True exampleResponse ?r) =
      Some [\<lparr> uri = js ''a'', title = js ''A2'' \<rparr>]"
    by simp
  from extractWebSources_dedup [where c = "exampleChunks ! 2"]
  have two: "webSourceOf (exampleChunks ! 2) = None"
    using c2 by blast
  from c1 one c2 two g att show ?thesis by blast
qed

text \<open>
  C2 as stated, keeping the first occurrence, fails on the example of the
  specification: the two chunks with the URI \<open>a\<close> give one source, with the title
  \<open>A2\<close> of the second chunk, where keeping the first occurrence would give the title
  \<open>A\<close>.
\<close>

theorem extractWebSources_keeps_last:
  "List.map_filter webSourceOf exampleChunks =
     [\<lparr> uri = js ''a'', title = js ''A'' \<rparr>, \<lparr> uri = js ''a'', title = js ''A2'' \<rparr>] \<and>
   firstOccurrences [] (List.map_filter webSourceOf exampleChunks) = [\<lparr> uri = js ''a'', title = js ''A'' \<rparr>] \<and>
   extractWebSources exampleChunks = [\<lparr> uri = js ''a'', title = js ''A2'' \<rparr>] \<and>
   extractWebSources exampleChunks \<noteq> [\<lparr> uri = js ''a'', title = js ''A'' \<rparr>] \<and>
   extractWebSources exampleChunks \<noteq> firstOccurrences [] (List.map_filter webSourceOf exampleChunks)"
  by (simp add: exampleChunks_result exampleChunks_sources) (simp add: js_def)

subsection \<open>The references section of the prompt\<close>

lemma prefix_separator: "c \<notin> set p \<Longrightarrow> prefix p (a @ c # b) = prefix p a"
proof
  assume c: "c \<notin> set p" and "prefix p (a @ c # b)"
  then consider "prefix p a" | us where "p = a @ us" "prefix us (c # b)"
    by (auto simp: prefix_append)
  then show "prefix p a"
  proof cases
    case 1
    then show ?thesis .
  next
    case 2
    with c have "us = []"
      by (cases us) auto
    with 2 show ?thesis by simp
  qed
next
  assume "prefix p a"
  then show "prefix p (a @ c # b)"
    by (rule prefix_prefix)
qed

lemma count_separator:
  assumes "p \<noteq> []" and "c \<notin> set p"
  shows "countOccurrences p (a @ c # b) = countOccurrences p a + countOccurrences p b"
proof (induction a)
  case Nil
  have "\<not> prefix p (c # b)"
    using assms by (cases p) auto
  then show ?case by simp
next
  case (Cons x a)
  have "prefix p ((x # a) @ c # b) = prefix p (x # a)"
    using assms(2) by (rule prefix_separator)
  then show ?case
    using Cons by simp
qed

lemma referenceStart_chars:
  "referenceStart \<noteq> []" "0x0A \<notin> set referenceStart" "0x20 \<notin> set referenceStart"
  by (simp_all add: referenceStart_def js_def)

lemmas count_line = count_separator [OF referenceStart_chars(1) referenceStart_chars(2)]
lemmas count_word = count_separator [OF referenceStart_chars(1) referenceStart_chars(3)]

lemma count_fixed:
  "countOccurrences referenceStart referenceStart = 1"
  "countOccurrences referenceStart (js ''ID:'') = 0"
  "countOccurrences referenceStart (js ''SOURCE_TYPE:'') = 0"
  "countOccurrences referenceStart (js ''TEXT:'') = 0"
  "countOccurrences referenceStart (js ''---REFERENCE_END---'') = 0"
  "countOccurrences referenceStart (js ''(No local references provided)'') = 0"
  by (simp_all add: referenceStart_def js_def)

lemma count_sourceType: "countOccurrences referenceStart (sourceTypeValue t) = 0"
  by (cases t) (simp_all add: referenceStart_def js_def)

lemma formatReference_lines:
  "formatReference r =
     [] @ 0x0A # (referenceStart @ 0x0A # ((js ''ID:'' @ 0x20 # ref_id r) @ 0x0A #
       ((js ''SOURCE_TYPE:'' @ 0x20 # sourceTypeValue (sourceType r)) @ 0x0A #
         (js ''TEXT:'' @ 0x0A # (ref_text r @ 0x0A # (js ''---REFERENCE_END---'' @ 0x0A # []))))))"
  by (simp add: formatReference_def referenceStart_def js_def)

lemma count_formatReference:
  "countOccurrences referenceStart (formatReference r) =
   1 + countOccurrences referenceStart (ref_id r) + countOccurrences referenceStart (ref_text r)"
  by (simp only: formatReference_lines count_line count_word count_fixed count_sourceType
      countOccurrences.simps(1))

lemma count_join:
  "countOccurrences referenceStart (join xs (js ''\<newline>'')) =
   sum_list (map (countOccurrences referenceStart) xs)"
proof (induction xs "js ''\<newline>''" rule: join.induct)
  case 1
  then show ?case by simp
next
  case (2 x)
  then show ?case by simp
next
  case (3 x y ys)
  have "join (x # y # ys) (js ''\<newline>'') = x @ 0x0A # join (y # ys) (js ''\<newline>'')"
    by (simp add: js_def)
  then show ?case
    using 3 by (simp add: count_line)
qed

lemma count_formatReferences:
  "countOccurrences referenceStart (formatReferences rs) =
   length rs + (\<Sum>r\<leftarrow>rs. countOccurrences referenceStart (ref_id r) + countOccurrences referenceStart (ref_text r))"
proof -
  have "(\<Sum>r\<leftarrow>rs. 1 + countOccurrences referenceStart (ref_id r) + countOccurrences referenceStart (ref_text r)) =
        length rs + (\<Sum>r\<leftarrow>rs. countOccurrences referenceStart (ref_id r) + countOccurrences referenceStart (ref_text r))"
    by (induction rs) simp_all
  then show ?thesis
    by (simp add: formatReferences_def count_join comp_def count_formatReference)
qed

lemma trim_nonempty:
  assumes "c \<in> set s" and "\<not> isWhiteSpace c"
  shows "trim s \<noteq> []"
proof -
  let ?d = "dropWhile isWhiteSpace s"
  have ne: "?d \<noteq> []"
    using assms by (auto simp: dropWhile_eq_Nil_conv)
  then have "\<not> isWhiteSpace (hd ?d)"
    by (simp add: hd_dropWhile)
  moreover have "hd ?d \<in> set (rev ?d)"
    using ne by simp
  ultimately have "dropWhile isWhiteSpace (rev ?d) \<noteq> []"
    by (auto simp: dropWhile_eq_Nil_conv)
  then show ?thesis
    by (simp add: trim_def)
qed

lemma trim_formatReferences: "rs \<noteq> [] \<Longrightarrow> trim (formatReferences rs) \<noteq> []"
proof -
  assume "rs \<noteq> []"
  then obtain r rest where rs: "rs = r # rest"
    by (cases rs) auto
  have "0x2D \<in> set (formatReference r)"
    by (simp add: formatReference_def js_def)
  moreover have "set (formatReference r) \<subseteq> set (formatReferences rs)"
    unfolding rs formatReferences_def by (cases rest) auto
  ultimately have "0x2D \<in> set (formatReferences rs)"
    by blast
  moreover have "\<not> isWhiteSpace 0x2D"
    by (simp add: isWhiteSpace_def)
  ultimately show ?thesis
    by (rule trim_nonempty)
qed

lemma referencesSection_cases:
  "rs \<noteq> [] \<Longrightarrow> referencesSection rs = formatReferences rs"
  "referencesSection [] = js ''(No local references provided)''"
  by (simp_all add: referencesSection_def trim_formatReferences)
     (simp add: formatReferences_def trim_def)

text \<open>
  C6, as the code has it. A list of N references is serialised into N blocks joined by a
  line feed, each block the start delimiter, the id, the source type, the text and the
  end delimiter on lines of their own, opened and closed by a line feed, so that a blank
  line stands between two blocks. Nothing is escaped: the number of start delimiters in
  the references section is N plus the number of start delimiters that the ids and the
  texts of the references contain themselves. It is exactly N when no id and no text
  contains the delimiter; the empty list gives the section that says that no
  references were provided, with no delimiter.
\<close>

theorem referencesSection_block_count:
  "countOccurrences referenceStart (referencesSection references) =
     length references +
     (\<Sum>r\<leftarrow>references. countOccurrences referenceStart (ref_id r) +
                          countOccurrences referenceStart (ref_text r)) \<and>
   ((\<forall>r\<in>set references. countOccurrences referenceStart (ref_id r) = 0 \<and>
                           countOccurrences referenceStart (ref_text r) = 0) \<longrightarrow>
      countOccurrences referenceStart (referencesSection references) = length references) \<and>
   (references \<noteq> [] \<longrightarrow>
      referencesSection references = join (map formatReference references) (js ''\<newline>'')) \<and>
   formatReference r =
     js ''\<newline>---REFERENCE_START---\<newline>ID: '' @ ref_id r @
     js ''\<newline>SOURCE_TYPE: '' @ sourceTypeValue (sourceType r) @
     js ''\<newline>TEXT:\<newline>'' @ ref_text r @
     js ''\<newline>---REFERENCE_END---\<newline>''"
proof -
  have total: "countOccurrences referenceStart (referencesSection references) =
     length references +
     (\<Sum>r\<leftarrow>references. countOccurrences referenceStart (ref_id r) +
                          countOccurrences referenceStart (ref_text r))"
  proof (cases "references = []")
    case True
    then show ?thesis by (simp add: referencesSection_cases(2) count_fixed)
  next
    case False
    then show ?thesis by (simp add: referencesSection_cases(1) count_formatReferences)
  qed
  have clean: "(\<Sum>r\<leftarrow>references. countOccurrences referenceStart (ref_id r) +
                          countOccurrences referenceStart (ref_text r)) = 0"
    if "\<forall>r\<in>set references. countOccurrences referenceStart (ref_id r) = 0 \<and>
                           countOccurrences referenceStart (ref_text r) = 0"
    using that by (induction references) simp_all
  have joined: "references \<noteq> [] \<longrightarrow>
      referencesSection references = join (map formatReference references) (js ''\<newline>'')"
    by (simp add: referencesSection_cases(1) formatReferences_def)
  show ?thesis
    using total clean joined by (simp add: formatReference_def)
qed

theorem referencesSection_block_count_witness:
  "countOccurrences referenceStart (js ''REF-001'') = 0 \<and>
   countOccurrences referenceStart (js ''Some text'') = 0 \<and>
   countOccurrences referenceStart (js ''REF-002'') = 0 \<and>
   countOccurrences referenceStart (js ''More text'') = 0 \<and>
   countOccurrences referenceStart
     (referencesSection [\<lparr> ref_id = js ''REF-001'', sourceType = PAPER, ref_text = js ''Some text'', isExpanded = Some True \<rparr>,
               \<lparr> ref_id = js ''REF-002'', sourceType = BOOK, ref_text = js ''More text'', isExpanded = Some False \<rparr>]) = 2"
proof -
  let ?rs = "[\<lparr> ref_id = js ''REF-001'', sourceType = PAPER, ref_text = js ''Some text'', isExpanded = Some True \<rparr>,
               \<lparr> ref_id = js ''REF-002'', sourceType = BOOK, ref_text = js ''More text'', isExpanded = Some False \<rparr>]"
  have clean: "countOccurrences referenceStart (js ''REF-001'') = 0"
    "countOccurrences referenceStart (js ''Some text'') = 0"
    "countOccurrences referenceStart (js ''REF-002'') = 0"
    "countOccurrences referenceStart (js ''More text'') = 0"
    by (simp_all add: referenceStart_def js_def)
  then have "\<forall>r\<in>set ?rs. countOccurrences referenceStart (ref_id r) = 0 \<and>
      countOccurrences referenceStart (ref_text r) = 0"
    by simp
  then have "countOccurrences referenceStart (referencesSection ?rs) = length ?rs"
    using referencesSection_block_count [where references = ?rs] by blast
  then show ?thesis
    using clean by simp
qed

text \<open>
  C6 as stated, for every list, fails for a reference whose text is the delimiter: one
  reference, two start delimiters.
\<close>

theorem referencesSection_extra_delimiter:
  "length [delimiterReference] = 1 \<and>
   countOccurrences referenceStart (referencesSection [delimiterReference]) = 2 \<and>
   countOccurrences referenceStart (referencesSection [delimiterReference]) \<noteq> length [delimiterReference]"
  by code_simp

subsection \<open>Cleaning the text of the response\<close>

lemma indexOf_absent: "c \<notin> set s \<Longrightarrow> indexOf s c = -1"
  by (induction s) auto

lemma indexOf_first: "c \<notin> set pre \<Longrightarrow> indexOf (pre @ c # rest) c = int (length pre)"
  by (induction pre) (auto simp: Let_def)

lemma indexOf_present: "c \<in> set s \<Longrightarrow> indexOf s c \<noteq> -1"
proof -
  assume "c \<in> set s"
  then obtain pre rest where "s = pre @ c # rest" and "c \<notin> set pre"
    by (auto dest: split_list_first)
  then show ?thesis by (simp add: indexOf_first)
qed

lemma lastIndexOf_absent: "c \<notin> set s \<Longrightarrow> lastIndexOf s c = -1"
  by (simp add: lastIndexOf_def indexOf_absent)

lemma lastIndexOf_last: "c \<notin> set post \<Longrightarrow> lastIndexOf (pre @ c # post) c = int (length pre)"
proof -
  assume "c \<notin> set post"
  then have "indexOf (rev post @ c # rev pre) c = int (length post)"
    using indexOf_first [of c "rev post" "rev pre"] by simp
  then show ?thesis
    by (simp add: lastIndexOf_def Let_def)
qed

lemma substring_middle:
  "substring (pre @ mid @ post) (int (length pre)) (int (length pre) + int (length mid)) = mid"
proof -
  let ?s = "pre @ mid @ post"
  let ?a = "int (length pre)"
  let ?b = "int (length pre) + int (length mid)"
  have "min (max ?a 0) (int (length ?s)) = ?a" and "min (max ?b 0) (int (length ?s)) = ?b"
    by simp_all
  moreover have "min ?a ?b = ?a" and "max ?a ?b = ?b"
    by simp_all
  moreover have "take (nat (?b - ?a)) (drop (nat ?a) ?s) = mid"
    by simp
  ultimately show ?thesis
    unfolding substring_def Let_def by (simp only:)
qed

lemma slice_braces:
  assumes "0x7B \<notin> set pre" and "0x7D \<notin> set post"
  shows "(let text1 = pre @ 0x7B # mid @ 0x7D # post;
              firstOpen = indexOf text1 0x7B;
              lastClose = lastIndexOf text1 0x7D
          in if firstOpen \<noteq> -1 \<and> lastClose \<noteq> -1 \<and> lastClose > firstOpen
             then substring text1 firstOpen (lastClose + 1)
             else text1) = 0x7B # mid @ [0x7D]"
proof -
  let ?t = "pre @ 0x7B # mid @ 0x7D # post"
  have first: "indexOf ?t 0x7B = int (length pre)"
    using assms(1) by (rule indexOf_first)
  have "lastIndexOf ((pre @ 0x7B # mid) @ 0x7D # post) 0x7D = int (length (pre @ 0x7B # mid))"
    using assms(2) by (rule lastIndexOf_last)
  then have last: "lastIndexOf ?t 0x7D = int (length pre) + 1 + int (length mid)"
    by simp
  have "substring (pre @ (0x7B # mid @ [0x7D]) @ post) (int (length pre))
          (int (length pre) + int (length (0x7B # mid @ [0x7D]))) = 0x7B # mid @ [0x7D]"
    by (rule substring_middle)
  then have "substring ?t (int (length pre)) (int (length pre) + 1 + int (length mid) + 1) = 0x7B # mid @ [0x7D]"
    by (simp add: add.commute add.left_commute)
  then show ?thesis
    by (simp add: first last Let_def)
qed

lemma first_and_last:
  assumes "s = pre @ a # mid @ b # post"
  shows "\<exists>pre' mid' post'. s = pre' @ a # mid' @ b # post' \<and> a \<notin> set pre' \<and> b \<notin> set post'"
proof -
  have "a \<in> set s" using assms by simp
  then obtain pre' rest where s: "s = pre' @ a # rest" and first: "a \<notin> set pre'"
    by (auto dest: split_list_first)
  have "b \<in> set rest"
  proof -
    from assms s have "pre' @ a # rest = pre @ a # mid @ b # post" by simp
    then consider us where "pre' = pre @ us" "us @ a # rest = a # mid @ b # post"
      | us where "pre' @ us = pre" "a # rest = us @ a # mid @ b # post"
      by (auto simp: append_eq_append_conv2)
    then show ?thesis
    proof cases
      case 1
      with first have "us = []" by (cases us) auto
      with 1 show ?thesis by simp
    next
      case 2
      then show ?thesis by (cases us) auto
    qed
  qed
  then obtain mid' post' where "rest = mid' @ b # post'" and "b \<notin> set post'"
    by (auto dest: split_list_last)
  with s first show ?thesis by auto
qed

lemma no_pair_no_slice:
  assumes "\<not> (\<exists>pre mid post. s = pre @ 0x7B # mid @ 0x7D # post)"
  shows "\<not> (indexOf s 0x7B \<noteq> -1 \<and> lastIndexOf s 0x7D \<noteq> -1 \<and> lastIndexOf s 0x7D > indexOf s 0x7B)"
proof
  assume c: "indexOf s 0x7B \<noteq> -1 \<and> lastIndexOf s 0x7D \<noteq> -1 \<and> lastIndexOf s 0x7D > indexOf s 0x7B"
  then have "0x7B \<in> set s" and "0x7D \<in> set s"
    using indexOf_absent lastIndexOf_absent by blast+
  then obtain pre rest where s: "s = pre @ 0x7B # rest" and "0x7B \<notin> set pre"
    by (auto dest: split_list_first)
  then have first: "indexOf s 0x7B = int (length pre)"
    by (simp add: indexOf_first)
  from \<open>0x7D \<in> set s\<close> obtain front post where s': "s = front @ 0x7D # post" and "0x7D \<notin> set post"
    by (auto dest: split_list_last)
  then have last: "lastIndexOf s 0x7D = int (length front)"
    by (simp add: lastIndexOf_last)
  from c first last have "length pre < length front" by simp
  moreover from s s' have "pre @ 0x7B # rest = front @ 0x7D # post" by simp
  ultimately obtain mid where "front = pre @ 0x7B # mid"
    by (auto simp: append_eq_append_conv2 Cons_eq_append_conv)
  with s' have "s = pre @ 0x7B # mid @ 0x7D # post" by simp
  with assms show False by blast
qed

lemma matchHere_append: "matchHere re s \<Longrightarrow> matchHere re (s @ t)"
  by (induction re s rule: matchHere.induct) simp_all

lemma matchHere_length: "matchHere re s \<Longrightarrow> length re \<le> length s"
  by (induction re s rule: matchHere.induct) simp_all

lemma matchHere_before:
  "\<forall>cls\<in>set re. c \<notin> set cls \<Longrightarrow> matchHere re (s @ c # t) \<Longrightarrow> matchHere re s"
proof (induction re s rule: matchHere.induct)
  case (1 s)
  then show ?case by simp
next
  case (2 cls re)
  then show ?case by simp
next
  case (3 cls re x xs)
  then show ?case by simp
qed

lemma removeMatches_subseq: "subseq (removeMatches re s) s"
proof (induction re s rule: removeMatches.induct)
  case (1 re)
  then show ?case by simp
next
  case (2 re x xs)
  show ?case
  proof (cases "re \<noteq> [] \<and> matchHere re (x # xs)")
    case True
    then have "subseq (removeMatches re (drop (length re - 1) xs)) (drop (length re - 1) xs)"
      using "2.IH"(1) by simp
    moreover have "subseq (drop (length re - 1) xs) (x # xs)"
      using suffix_drop [of "length re - 1" xs] by (auto intro: suffix_imp_subseq)
    ultimately have "subseq (removeMatches re (drop (length re - 1) xs)) (x # xs)"
      by (rule subseq_order.trans)
    then show ?thesis using True by simp
  next
    case False
    then show ?thesis using "2.IH"(2) by auto
  qed
qed

lemma removeMatches_set: "set (removeMatches re s) \<subseteq> set s"
  using removeMatches_subseq [of re s] by (auto dest: list_emb_set)

lemma removeMatches_step:
  "re \<noteq> [] \<and> matchHere re (x # xs) \<Longrightarrow>
     removeMatches re (x # xs) = removeMatches re (drop (length re - 1) xs)"
  "\<not> (re \<noteq> [] \<and> matchHere re (x # xs)) \<Longrightarrow> removeMatches re (x # xs) = x # removeMatches re xs"
  by auto

lemma removeMatches_separator:
  assumes "\<forall>cls\<in>set re. c \<notin> set cls"
  shows "removeMatches re (a @ c # b) = removeMatches re a @ c # removeMatches re b"
  using assms
proof (induction re a rule: removeMatches.induct)
  case (1 re)
  then have "\<not> (re \<noteq> [] \<and> matchHere re (c # b))"
    by (cases re) auto
  then have "removeMatches re (c # b) = c # removeMatches re b"
    by (rule removeMatches_step(2))
  then show ?case by simp
next
  case (2 re x xs)
  show ?case
  proof (cases "re \<noteq> [] \<and> matchHere re (x # xs)")
    case True
    then have "re \<noteq> [] \<and> matchHere re (x # (xs @ c # b))"
      using matchHere_append [of re "x # xs" "c # b"] by simp
    then have "removeMatches re (x # (xs @ c # b)) = removeMatches re (drop (length re - 1) (xs @ c # b))"
      by (rule removeMatches_step(1))
    moreover have "length re - 1 \<le> length xs"
      using True matchHere_length [of re "x # xs"] by simp
    then have "drop (length re - 1) (xs @ c # b) = drop (length re - 1) xs @ c # b"
      by simp
    moreover have "removeMatches re (drop (length re - 1) xs @ c # b) =
        removeMatches re (drop (length re - 1) xs) @ c # removeMatches re b"
      using "2.IH"(1) [OF True "2.prems"] .
    moreover have "removeMatches re (x # xs) = removeMatches re (drop (length re - 1) xs)"
      using True by (rule removeMatches_step(1))
    ultimately show ?thesis by simp
  next
    case False
    then have "\<not> (re \<noteq> [] \<and> matchHere re (x # (xs @ c # b)))"
      using matchHere_before [OF "2.prems", of "x # xs" b] by auto
    then have "removeMatches re (x # (xs @ c # b)) = x # removeMatches re (xs @ c # b)"
      by (rule removeMatches_step(2))
    moreover have "removeMatches re (xs @ c # b) = removeMatches re xs @ c # removeMatches re b"
      using "2.IH"(2) [OF False "2.prems"] .
    moreover have "removeMatches re (x # xs) = x # removeMatches re xs"
      using False by (rule removeMatches_step(2))
    ultimately show ?thesis by simp
  qed
qed

lemma removeMatches_none: "\<not> occursIn re s \<Longrightarrow> removeMatches re s = s"
  by (induction s) simp_all

lemma occursIn_append: "re \<noteq> [] \<Longrightarrow> occursIn re s \<Longrightarrow> occursIn re (s @ t)"
proof (induction s)
  case Nil
  then show ?case by (cases re) simp_all
next
  case (Cons x xs)
  then show ?case
    using matchHere_append [of re "x # xs" t] by auto
qed

lemma matchHere_fenceJson: "matchHere fenceJson s \<Longrightarrow> matchHere fence s"
proof -
  assume m: "matchHere fenceJson s"
  show ?thesis
  proof (cases s)
    case Nil
    with m show ?thesis by (simp add: fenceJson_def)
  next
    case s1: (Cons a s1)
    show ?thesis
    proof (cases s1)
      case Nil
      with m s1 show ?thesis by (simp add: fenceJson_def)
    next
      case s2: (Cons b s2)
      show ?thesis
      proof (cases s2)
        case Nil
        with m s1 s2 show ?thesis by (simp add: fenceJson_def)
      next
        case (Cons c s3)
        with m s1 s2 show ?thesis by (simp add: fenceJson_def fence_def)
      qed
    qed
  qed
qed

lemma occursIn_fenceJson: "occursIn fenceJson s \<Longrightarrow> occursIn fence s"
proof (induction s)
  case Nil
  then show ?case by (simp add: fenceJson_def)
next
  case (Cons x xs)
  then show ?case
    using matchHere_fenceJson [of "x # xs"] by auto
qed

lemma fence_step: "matchHere fence (x # t) = (x = 0x60 \<and> matchHere [[0x60], [0x60]] t)"
  by (simp add: fence_def)

lemma two_ticks_kept:
  assumes "\<not> matchHere [[0x60], [0x60]] s"
  shows "\<not> matchHere [[0x60], [0x60]] (removeMatches fence s)"
proof (cases s)
  case Nil
  then show ?thesis by simp
next
  case s1: (Cons x xs)
  show ?thesis
  proof (cases "x = 0x60")
    case False
    then show ?thesis using s1 by (simp add: fence_def)
  next
    case True
    show ?thesis
    proof (cases xs)
      case Nil
      then show ?thesis using s1 by (simp add: fence_def)
    next
      case (Cons y ys)
      then have "y \<noteq> 0x60"
        using assms s1 True by auto
      then show ?thesis
        using s1 Cons by (simp add: fence_def)
    qed
  qed
qed

lemma no_fence_left: "\<not> occursIn fence (removeMatches fence s)"
proof (induction s rule: length_induct)
  case (1 s)
  show ?case
  proof (cases s)
    case Nil
    then show ?thesis by (simp add: fence_def)
  next
    case (Cons x xs)
    show ?thesis
    proof (cases "matchHere fence (x # xs)")
      case True
      have "length (drop (length fence - 1) xs) < length s"
        using Cons by simp
      then have "\<not> occursIn fence (removeMatches fence (drop (length fence - 1) xs))"
        using 1 by blast
      moreover have "removeMatches fence (x # xs) = removeMatches fence (drop (length fence - 1) xs)"
        using True by (intro removeMatches_step(1)) (simp add: fence_def)
      ultimately show ?thesis using Cons by simp
    next
      case False
      then have r: "removeMatches fence (x # xs) = x # removeMatches fence xs"
        by (intro removeMatches_step(2)) simp
      have "\<not> occursIn fence (removeMatches fence xs)"
        using 1 Cons by simp
      moreover have "\<not> matchHere fence (x # removeMatches fence xs)"
        using False two_ticks_kept [of xs] by (simp add: fence_step)
      ultimately show ?thesis using Cons r by simp
    qed
  qed
qed

lemma stripFences_clean:
  "subseq (stripFences raw) raw"
  "\<not> occursIn fence (stripFences raw)"
  "\<not> occursIn fenceJson (stripFences raw)"
proof -
  have "subseq (removeMatches fence (removeMatches fenceJson raw)) (removeMatches fenceJson raw)"
    by (rule removeMatches_subseq)
  moreover have "subseq (removeMatches fenceJson raw) raw"
    by (rule removeMatches_subseq)
  ultimately show "subseq (stripFences raw) raw"
    unfolding stripFences_def by (rule subseq_order.trans)
  show f: "\<not> occursIn fence (stripFences raw)"
    unfolding stripFences_def by (rule no_fence_left)
  then show "\<not> occursIn fenceJson (stripFences raw)"
    using occursIn_fenceJson by blast
qed

lemma braces_break:
  "\<forall>cls\<in>set fence. 0x7B \<notin> set cls" "\<forall>cls\<in>set fence. 0x7D \<notin> set cls"
  "\<forall>cls\<in>set fenceJson. 0x7B \<notin> set cls" "\<forall>cls\<in>set fenceJson. 0x7D \<notin> set cls"
  by (simp_all add: fence_def fenceJson_def)

lemma removeMatches_embedded:
  assumes "\<forall>cls\<in>set re. 0x7B \<notin> set cls" and "\<forall>cls\<in>set re. 0x7D \<notin> set cls"
    and "\<not> occursIn re mid"
  shows "removeMatches re (pre @ 0x7B # mid @ 0x7D # post) =
         removeMatches re pre @ 0x7B # mid @ 0x7D # removeMatches re post"
proof -
  have "removeMatches re (pre @ 0x7B # (mid @ 0x7D # post)) =
        removeMatches re pre @ 0x7B # removeMatches re (mid @ 0x7D # post)"
    using assms(1) by (rule removeMatches_separator)
  moreover have "removeMatches re (mid @ 0x7D # post) = removeMatches re mid @ 0x7D # removeMatches re post"
    using assms(2) by (rule removeMatches_separator)
  moreover have "removeMatches re mid = mid"
    using assms(3) by (rule removeMatches_none)
  ultimately show ?thesis by simp
qed

lemma stripFences_embedded:
  assumes "\<not> occursIn fence mid"
  shows "stripFences (pre @ 0x7B # mid @ 0x7D # post) = stripFences pre @ 0x7B # mid @ 0x7D # stripFences post"
proof -
  have "\<not> occursIn fenceJson mid"
    using assms occursIn_fenceJson by blast
  then have "removeMatches fenceJson (pre @ 0x7B # mid @ 0x7D # post) =
        removeMatches fenceJson pre @ 0x7B # mid @ 0x7D # removeMatches fenceJson post"
    using braces_break(3,4) by (intro removeMatches_embedded)
  moreover have "removeMatches fence (removeMatches fenceJson pre @ 0x7B # mid @ 0x7D # removeMatches fenceJson post) =
        removeMatches fence (removeMatches fenceJson pre) @ 0x7B # mid @ 0x7D #
        removeMatches fence (removeMatches fenceJson post)"
    using braces_break(1,2) assms by (intro removeMatches_embedded)
  ultimately show ?thesis
    by (simp add: stripFences_def)
qed

lemma stripFences_set: "set (stripFences s) \<subseteq> set s"
  using removeMatches_set [of fence "removeMatches fenceJson s"] removeMatches_set [of fenceJson s]
  by (auto simp: stripFences_def)

lemma cleanJsonText_sliced:
  assumes "stripFences raw = p @ 0x7B # m @ 0x7D # q" and "0x7B \<notin> set p" and "0x7D \<notin> set q"
  shows "cleanJsonText raw = 0x7B # m @ [0x7D]"
  using slice_braces [OF assms(2,3), of m]
  by (simp add: cleanJsonText_def assms(1) jsChar_def)

lemma cleanJsonText_embedded:
  assumes "0x7B \<notin> set pre" and "0x7D \<notin> set post" and "\<not> occursIn fence (0x7B # mid @ [0x7D])"
  shows "cleanJsonText (pre @ 0x7B # mid @ 0x7D # post) = 0x7B # mid @ [0x7D]"
proof -
  have "\<not> occursIn fence mid"
  proof
    assume "occursIn fence mid"
    then have "occursIn fence (mid @ [0x7D])"
      by (intro occursIn_append) (simp_all add: fence_def)
    with assms(3) show False by simp
  qed
  then have "stripFences (pre @ 0x7B # mid @ 0x7D # post) = stripFences pre @ 0x7B # mid @ 0x7D # stripFences post"
    by (rule stripFences_embedded)
  moreover have "0x7B \<notin> set (stripFences pre)" and "0x7D \<notin> set (stripFences post)"
    using assms(1,2) stripFences_set by blast+
  ultimately show ?thesis
    by (rule cleanJsonText_sliced)
qed

lemma cleanJsonText_unsliced:
  assumes "\<not> (\<exists>p m q. stripFences raw = p @ 0x7B # m @ 0x7D # q)"
  shows "cleanJsonText raw = stripFences raw"
  using no_pair_no_slice [OF assms]
  by (auto simp: cleanJsonText_def jsChar_def Let_def)

lemma brace_chars:
  "js ''{'' = [0x7B]" "js ''}'' = [0x7D]" "jsChar CHR ''{'' = 0x7B" "jsChar CHR ''}'' = 0x7D"
  by (simp_all add: js_def jsChar_def)

text \<open>
  C1, as the code has it. For every text of a response the cleanup first removes the code
  fence markers: what is left is the text with characters deleted, and holds no marker.
  When the text so cleaned has an opening brace before a closing brace, the cleanup is
  the slice from the first opening brace to the last closing brace, both included;
  when it has no such pair, the cleanup is the whole cleaned text. The parser is given
  the cleanup. For a reply that wraps an object, a text from an opening to a closing
  brace, in prose and code fences: when the text before the object has no opening brace,
  the text after it has no closing brace and the object holds no fence marker, the
  cleanup is the object, and parsing the reply gives what parsing the object alone gives.
\<close>

theorem cleanJsonText_slices:
  \<open>subseq (stripFences raw) raw \<and>
   \<not> occursIn fence (stripFences raw) \<and>
   \<not> occursIn fenceJson (stripFences raw) \<and>
   ((\<exists>p m q. stripFences raw = p @ js ''{'' @ m @ js ''}'' @ q) \<longrightarrow>
      (\<exists>p m q. stripFences raw = p @ js ''{'' @ m @ js ''}'' @ q \<and>
         jsChar CHR ''{'' \<notin> set p \<and> jsChar CHR ''}'' \<notin> set q \<and>
         cleanJsonText raw = js ''{'' @ m @ js ''}'')) \<and>
   (\<not> (\<exists>p m q. stripFences raw = p @ js ''{'' @ m @ js ''}'' @ q) \<longrightarrow>
      cleanJsonText raw = stripFences raw) \<and>
   parseCleaned JSON_parse raw =
     (case JSON_parse (cleanJsonText raw) of
        None \<Rightarrow> Inl (Error (js ''Failed to parse analysis results. The AI response was not valid JSON.''))
      | Some result \<Rightarrow> Inr result) \<and>
   (jsChar CHR ''{'' \<notin> set pre \<and> jsChar CHR ''}'' \<notin> set post \<and>
    \<not> occursIn fence (js ''{'' @ mid @ js ''}'') \<longrightarrow>
      cleanJsonText (pre @ (js ''{'' @ mid @ js ''}'') @ post) = js ''{'' @ mid @ js ''}'' \<and>
      parseCleaned JSON_parse (pre @ (js ''{'' @ mid @ js ''}'') @ post) =
        (case JSON_parse (js ''{'' @ mid @ js ''}'') of
           None \<Rightarrow> Inl (Error (js ''Failed to parse analysis results. The AI response was not valid JSON.''))
         | Some result \<Rightarrow> Inr result))\<close>
proof -
  have strip: "stripFences raw = p @ js ''{'' @ m @ js ''}'' @ q \<longleftrightarrow> stripFences raw = p @ 0x7B # m @ 0x7D # q"
    for p m q
    by (simp only: brace_chars append_Cons append_Nil)
  have obj: "js ''{'' @ m @ js ''}'' = 0x7B # m @ [0x7D]" for m
    by (simp only: brace_chars append_Cons append_Nil)
  have whole: "pre @ (js ''{'' @ mid @ js ''}'') @ post = pre @ 0x7B # mid @ 0x7D # post"
    by (simp only: brace_chars append_Cons append_Nil append_assoc)
  have sliced: "\<exists>p m q. stripFences raw = p @ js ''{'' @ m @ js ''}'' @ q \<and>
         jsChar CHR ''{'' \<notin> set p \<and> jsChar CHR ''}'' \<notin> set q \<and>
         cleanJsonText raw = js ''{'' @ m @ js ''}''"
    if "\<exists>p m q. stripFences raw = p @ js ''{'' @ m @ js ''}'' @ q"
  proof -
    from that obtain p m q where "stripFences raw = p @ 0x7B # m @ 0x7D # q"
      unfolding strip by blast
    then obtain p' m' q' where s: "stripFences raw = p' @ 0x7B # m' @ 0x7D # q'"
      and p: "0x7B \<notin> set p'" and q: "0x7D \<notin> set q'"
      using first_and_last [of "stripFences raw" p "0x7B" m "0x7D" q] by blast
    then have "cleanJsonText raw = 0x7B # m' @ [0x7D]"
      by (rule cleanJsonText_sliced)
    with s p q show ?thesis
      unfolding strip obj brace_chars(3,4) by blast
  qed
  have unsliced: "cleanJsonText raw = stripFences raw"
    if "\<not> (\<exists>p m q. stripFences raw = p @ js ''{'' @ m @ js ''}'' @ q)"
    using that unfolding strip by (rule cleanJsonText_unsliced)
  have embedded: "cleanJsonText (pre @ (js ''{'' @ mid @ js ''}'') @ post) = js ''{'' @ mid @ js ''}''"
    if "jsChar CHR ''{'' \<notin> set pre \<and> jsChar CHR ''}'' \<notin> set post \<and>
        \<not> occursIn fence (js ''{'' @ mid @ js ''}'')"
    using that cleanJsonText_embedded [of pre post mid] unfolding whole unfolding obj brace_chars(3,4) by blast
  have parsed: "parseCleaned JSON_parse t =
     (case JSON_parse (cleanJsonText t) of
        None \<Rightarrow> Inl (Error (js ''Failed to parse analysis results. The AI response was not valid JSON.''))
      | Some result \<Rightarrow> Inr result)" for t
    by (simp only: parseCleaned_def)
  have embedded_parsed: "parseCleaned JSON_parse (pre @ (js ''{'' @ mid @ js ''}'') @ post) =
        (case JSON_parse (js ''{'' @ mid @ js ''}'') of
           None \<Rightarrow> Inl (Error (js ''Failed to parse analysis results. The AI response was not valid JSON.''))
         | Some result \<Rightarrow> Inr result)"
    if "jsChar CHR ''{'' \<notin> set pre \<and> jsChar CHR ''}'' \<notin> set post \<and>
        \<not> occursIn fence (js ''{'' @ mid @ js ''}'')"
    by (simp only: parsed embedded [OF that])
  show ?thesis
    using stripFences_clean [of raw] sliced unsliced embedded embedded_parsed parsed [of raw]
    by blast
qed

theorem cleanJsonText_slices_witness:
  \<open>jsChar CHR ''{'' \<notin> set (js ''Sure! '' @ codeFence @ js ''json\<newline>'') \<and>
   jsChar CHR ''}'' \<notin> set (js ''\<newline>'' @ codeFence) \<and>
   \<not> occursIn fence (js ''{"overall_plagiarism_risk":10}'') \<and>
   cleanJsonText exampleRaw = js ''{"overall_plagiarism_risk":10}'' \<and>
   stripFences (js ''I cannot analyse this.'') = js ''I cannot analyse this.'' \<and>
   cleanJsonText (js ''I cannot analyse this.'') = js ''I cannot analyse this.''\<close>
proof -
  have h: \<open>jsChar CHR ''{'' \<notin> set (js ''Sure! '' @ codeFence @ js ''json\<newline>'') \<and>
      jsChar CHR ''}'' \<notin> set (js ''\<newline>'' @ codeFence) \<and>
      \<not> occursIn fence (js ''{'' @ js ''"overall_plagiarism_risk":10'' @ js ''}'')\<close>
    by (simp add: js_def jsChar_def codeFence_def fence_def)
  have e: \<open>exampleRaw = (js ''Sure! '' @ codeFence @ js ''json\<newline>'') @
      (js ''{'' @ js ''"overall_plagiarism_risk":10'' @ js ''}'') @ (js ''\<newline>'' @ codeFence)\<close>
    \<open>js ''{'' @ js ''"overall_plagiarism_risk":10'' @ js ''}'' = js ''{"overall_plagiarism_risk":10}''\<close>
    by (simp_all add: exampleRaw_def js_def)
  have one: \<open>cleanJsonText exampleRaw = js ''{"overall_plagiarism_risk":10}''\<close>
    using cleanJsonText_slices [where pre = \<open>js ''Sure! '' @ codeFence @ js ''json\<newline>''\<close>
        and mid = \<open>js ''"overall_plagiarism_risk":10''\<close> and post = \<open>js ''\<newline>'' @ codeFence\<close>] h
    unfolding e by blast
  have s: "stripFences (js ''I cannot analyse this.'') = js ''I cannot analyse this.''"
    by (simp add: stripFences_def js_def fence_def fenceJson_def)
  have "\<not> (\<exists>p m q. stripFences (js ''I cannot analyse this.'') = p @ js ''{'' @ m @ js ''}'' @ q)"
  proof
    assume "\<exists>p m q. stripFences (js ''I cannot analyse this.'') = p @ js ''{'' @ m @ js ''}'' @ q"
    then obtain p m q where "js ''I cannot analyse this.'' = p @ js ''{'' @ m @ js ''}'' @ q"
      unfolding s by blast
    then have "0x7B \<in> set (js ''I cannot analyse this.'')"
      by (simp add: brace_chars)
    then show False by (simp add: js_def)
  qed
  then have two: "cleanJsonText (js ''I cannot analyse this.'') = stripFences (js ''I cannot analyse this.'')"
    using cleanJsonText_slices [where raw = "js ''I cannot analyse this.''"] by blast
  from h one s two show ?thesis
    unfolding e by simp
qed

text \<open>
  C1 as stated, for every object wrapped in prose and code fences, fails in two ways.
  Prose with a brace of its own moves the slice: for \<open>Use {x}: {"a":1}\<close> the parser is
  given \<open>{x}: {"a":1}\<close>, not the embedded object \<open>{"a":1}\<close>. And a fence marker inside
  the object is removed with the others: the fenced object whose field \<open>a\<close> is the
  string of three backticks becomes the object whose field \<open>a\<close> is the empty string.
\<close>

theorem cleanJsonText_wrong_slice:
  \<open>cleanJsonText (js ''Use {x}: {"a":1}'') = js ''{x}: {"a":1}'' \<and>
   cleanJsonText (js ''Use {x}: {"a":1}'') \<noteq> js ''{"a":1}'' \<and>
   cleanJsonText (codeFence @ js ''json\<newline>{"a":"'' @ codeFence @ js ''"}\<newline>'' @ codeFence) = js ''{"a":""}'' \<and>
   cleanJsonText (codeFence @ js ''json\<newline>{"a":"'' @ codeFence @ js ''"}\<newline>'' @ codeFence) \<noteq>
     js ''{"a":"'' @ codeFence @ js ''"}''\<close>
  by code_simp

subsection \<open>The steps together\<close>

text \<open>
  With a key, a response of the model and a non-empty text in it, the outcome of
  \<open>analyzePlagiarism\<close> is that of parsing the cleaned text, with the web sources
  attached to a parsed result.
\<close>

lemma analyzePlagiarism_response:
  assumes "getClient API_KEY = Inr ai"
    and "generateContent ai
           \<lparr> model = js ''gemini-3-pro-preview'',
             contents = buildPrompt documentText references documentType enableWebSearch,
             config = buildConfig enableWebSearch \<rparr> = Resolves response"
    and "response_text response = Some t" and "t \<noteq> []"
  shows "fst (analyzePlagiarism API_KEY generateContent JSON_parse documentText references documentType
                enableWebSearch) =
         (case parseCleaned JSON_parse t of
            Inl e \<Rightarrow> Inl e
          | Inr result \<Rightarrow> Inr (attachWebSources enableWebSearch response result))"
  using assms by (simp add: analyzePlagiarism_def Let_def split: sum.splits)

section \<open>Properties of the analyze action\<close>

lemma trim_examples:
  "trim (js ''My essay'') \<noteq> []"
  "trim (js '' \<newline> '') = []"
  by (simp_all add: trim_def isWhiteSpace_def js_def)

text \<open>
  C3. For every state of the application and every Analysis Client: when the document
  text is empty after trimming, the client is not called and the state only gains the
  message that asks for the document text, whatever the references and the web-search
  flag are; when the text is there, no reference has text after trimming and web search
  is off, the client is not called and the state only gains the message that asks for
  a reference or web search; otherwise the client is called once, with the state's four
  values, also with no reference at all when web search is on. So the action makes no
  call and sets an error message exactly when a precondition is unmet.
\<close>

theorem handleAnalyze_preconditions:
  "case handleAnalyze analyze st of (st', calls) \<Rightarrow>
     (trim (app_documentText st) = [] \<longrightarrow>
        calls = [] \<and> st' = st\<lparr> app_error := Some (js ''Please enter the document text.'') \<rparr>) \<and>
     (trim (app_documentText st) \<noteq> [] \<and> \<not> (\<exists>r\<in>set (app_references st). trim (ref_text r) \<noteq> []) \<and>
      \<not> app_useWebSearch st \<longrightarrow>
        calls = [] \<and>
        st' = st\<lparr> app_error := Some (js ''Please add at least one reference text OR enable Web Search.'') \<rparr>) \<and>
     (trim (app_documentText st) \<noteq> [] \<and>
      ((\<exists>r\<in>set (app_references st). trim (ref_text r) \<noteq> []) \<or> app_useWebSearch st) \<longrightarrow>
        calls = [(app_documentText st, app_references st, app_documentType st, app_useWebSearch st)]) \<and>
     (trim (app_documentText st) \<noteq> [] \<and> app_references st = [] \<and> app_useWebSearch st \<longrightarrow>
        calls = [(app_documentText st, [], app_documentType st, True)]) \<and>
     ((calls = [] \<and> app_error st' \<noteq> None) =
      (trim (app_documentText st) = [] \<or>
       (\<not> (\<exists>r\<in>set (app_references st). trim (ref_text r) \<noteq> []) \<and> \<not> app_useWebSearch st)))"
proof -
  let ?has = "\<exists>r\<in>set (app_references st). trim (ref_text r) \<noteq> []"
  have has: "(length (app_references st) > 0 \<and> list_ex (\<lambda>r. trim (ref_text r) \<noteq> []) (app_references st)) = ?has"
    by (auto simp: list_ex_iff)
  consider (empty) "trim (app_documentText st) = []"
    | (nosource) "trim (app_documentText st) \<noteq> []" "\<not> ?has" "\<not> app_useWebSearch st"
    | (ok) "trim (app_documentText st) \<noteq> []" "?has \<or> app_useWebSearch st"
    by blast
  then show ?thesis
  proof cases
    case empty
    then have "handleAnalyze analyze st = (st\<lparr> app_error := Some (js ''Please enter the document text.'') \<rparr>, [])"
      by (simp add: handleAnalyze_def)
    with empty show ?thesis by simp
  next
    case nosource
    then have "handleAnalyze analyze st =
        (st\<lparr> app_error := Some (js ''Please add at least one reference text OR enable Web Search.'') \<rparr>, [])"
      unfolding handleAnalyze_def has by (simp add: Let_def)
    with nosource show ?thesis by simp
  next
    case ok
    then obtain st' where "handleAnalyze analyze st =
        (st', [(app_documentText st, app_references st, app_documentType st, app_useWebSearch st)])"
      unfolding handleAnalyze_def has by (auto simp: Let_def)
    with ok show ?thesis by auto
  qed
qed

theorem handleAnalyze_preconditions_witness:
  "trim (app_documentText (exampleState (js ''My essay'') True)) \<noteq> [] \<and>
   app_references (exampleState (js ''My essay'') True) = [] \<and>
   app_useWebSearch (exampleState (js ''My essay'') True) \<and>
   snd (handleAnalyze (\<lambda>d r t w. Inl (Error (js ''API Key is missing''))) (exampleState (js ''My essay'') True)) =
     [(js ''My essay'', [], js ''Research Paper'', True)] \<and>
   trim (app_documentText (exampleState (js '' \<newline> '') True)) = [] \<and>
   handleAnalyze (\<lambda>d r t w. Inl (Error (js ''API Key is missing''))) (exampleState (js '' \<newline> '') True) =
     ((exampleState (js '' \<newline> '') True)\<lparr> app_error := Some (js ''Please enter the document text.'') \<rparr>, []) \<and>
   \<not> app_useWebSearch (exampleState (js ''My essay'') False) \<and>
   handleAnalyze (\<lambda>d r t w. Inl (Error (js ''API Key is missing''))) (exampleState (js ''My essay'') False) =
     ((exampleState (js ''My essay'') False)
        \<lparr> app_error := Some (js ''Please add at least one reference text OR enable Web Search.'') \<rparr>, [])"
proof -
  let ?analyze = "\<lambda>(d::jsstring) (r::ReferenceItem list) (t::jsstring) (w::bool).
     (Inl (Error (js ''API Key is missing'')) :: error + AnalysisResult)"
  have f: "app_documentText (exampleState d w) = d" "app_references (exampleState d w) = []"
    "app_useWebSearch (exampleState d w) = w" "app_documentType (exampleState d w) = js ''Research Paper''" for d w
    by (simp_all add: exampleState_def)
  show ?thesis
    using handleAnalyze_preconditions [where analyze = ?analyze and st = "exampleState (js ''My essay'') True"]
      handleAnalyze_preconditions [where analyze = ?analyze and st = "exampleState (js '' \<newline> '') True"]
      handleAnalyze_preconditions [where analyze = ?analyze and st = "exampleState (js ''My essay'') False"]
      trim_examples
    by (auto simp: f split: prod.splits)
qed

section \<open>Properties of the result view\<close>

lemma risk_classes_distinct:
  "js ''text-green-600'' \<noteq> js ''text-yellow-600''"
  "js ''text-green-600'' \<noteq> js ''text-orange-600''"
  "js ''text-green-600'' \<noteq> js ''text-red-600''"
  "js ''text-yellow-600'' \<noteq> js ''text-orange-600''"
  "js ''text-yellow-600'' \<noteq> js ''text-red-600''"
  "js ''text-orange-600'' \<noteq> js ''text-red-600''"
  by (simp_all add: js_def)

lemma risk_bg_distinct:
  "js ''bg-green-50 border-green-200'' \<noteq> js ''bg-yellow-50 border-yellow-200''"
  "js ''bg-green-50 border-green-200'' \<noteq> js ''bg-orange-50 border-orange-200''"
  "js ''bg-green-50 border-green-200'' \<noteq> js ''bg-red-50 border-red-200''"
  "js ''bg-yellow-50 border-yellow-200'' \<noteq> js ''bg-orange-50 border-orange-200''"
  "js ''bg-yellow-50 border-yellow-200'' \<noteq> js ''bg-red-50 border-red-200''"
  "js ''bg-orange-50 border-orange-200'' \<noteq> js ''bg-red-50 border-red-200''"
  by (simp_all add: js_def)

lemma getRiskColor_cases:
  "score < 20 \<Longrightarrow> getRiskColor score = js ''text-green-600''"
  "20 \<le> score \<Longrightarrow> score < 50 \<Longrightarrow> getRiskColor score = js ''text-yellow-600''"
  "50 \<le> score \<Longrightarrow> score < 80 \<Longrightarrow> getRiskColor score = js ''text-orange-600''"
  "80 \<le> score \<Longrightarrow> getRiskColor score = js ''text-red-600''"
  unfolding getRiskColor_def by simp_all

lemma getRiskBg_cases:
  "score < 20 \<Longrightarrow> getRiskBg score = js ''bg-green-50 border-green-200''"
  "20 \<le> score \<Longrightarrow> score < 50 \<Longrightarrow> getRiskBg score = js ''bg-yellow-50 border-yellow-200''"
  "50 \<le> score \<Longrightarrow> score < 80 \<Longrightarrow> getRiskBg score = js ''bg-orange-50 border-orange-200''"
  "80 \<le> score \<Longrightarrow> getRiskBg score = js ''bg-red-50 border-red-200''"
  unfolding getRiskBg_def by simp_all

text \<open>
  C8. For every risk score the colour class is the red one iff the score is at least 80,
  the orange one iff it is at least 50 and below 80, the yellow one iff it is at least 20
  and below 50, and the green one iff it is below 20; the background classes follow the
  same tiers. At the boundaries: 19 is green and 20 yellow, 49 yellow and 50 orange,
  79 orange and 80 red.
\<close>

theorem getRiskColor_tiers:
  "(getRiskColor score = js ''text-red-600'' \<longleftrightarrow> 80 \<le> score) \<and>
   (getRiskColor score = js ''text-orange-600'' \<longleftrightarrow> 50 \<le> score \<and> score < 80) \<and>
   (getRiskColor score = js ''text-yellow-600'' \<longleftrightarrow> 20 \<le> score \<and> score < 50) \<and>
   (getRiskColor score = js ''text-green-600'' \<longleftrightarrow> score < 20) \<and>
   (getRiskBg score = js ''bg-red-50 border-red-200'' \<longleftrightarrow> 80 \<le> score) \<and>
   (getRiskBg score = js ''bg-orange-50 border-orange-200'' \<longleftrightarrow> 50 \<le> score \<and> score < 80) \<and>
   (getRiskBg score = js ''bg-yellow-50 border-yellow-200'' \<longleftrightarrow> 20 \<le> score \<and> score < 50) \<and>
   (getRiskBg score = js ''bg-green-50 border-green-200'' \<longleftrightarrow> score < 20) \<and>
   getRiskColor 19 = js ''text-green-600'' \<and> getRiskColor 20 = js ''text-yellow-600'' \<and>
   getRiskColor 49 = js ''text-yellow-600'' \<and> getRiskColor 50 = js ''text-orange-600'' \<and>
   getRiskColor 79 = js ''text-orange-600'' \<and> getRiskColor 80 = js ''text-red-600''"
proof -
  consider "score < 20" | "20 \<le> score" "score < 50" | "50 \<le> score" "score < 80" | "80 \<le> score"
    by linarith
  then have tiers:
    "(getRiskColor score = js ''text-red-600'' \<longleftrightarrow> 80 \<le> score) \<and>
     (getRiskColor score = js ''text-orange-600'' \<longleftrightarrow> 50 \<le> score \<and> score < 80) \<and>
     (getRiskColor score = js ''text-yellow-600'' \<longleftrightarrow> 20 \<le> score \<and> score < 50) \<and>
     (getRiskColor score = js ''text-green-600'' \<longleftrightarrow> score < 20) \<and>
     (getRiskBg score = js ''bg-red-50 border-red-200'' \<longleftrightarrow> 80 \<le> score) \<and>
     (getRiskBg score = js ''bg-orange-50 border-orange-200'' \<longleftrightarrow> 50 \<le> score \<and> score < 80) \<and>
     (getRiskBg score = js ''bg-yellow-50 border-yellow-200'' \<longleftrightarrow> 20 \<le> score \<and> score < 50) \<and>
     (getRiskBg score = js ''bg-green-50 border-green-200'' \<longleftrightarrow> score < 20)"
  proof cases
    case 1
    then show ?thesis
      using risk_classes_distinct risk_bg_distinct
      by (simp add: getRiskColor_cases(1) getRiskBg_cases(1))
  next
    case 2
    then show ?thesis
      using risk_classes_distinct risk_bg_distinct
      by (simp add: getRiskColor_cases(2) getRiskBg_cases(2))
  next
    case 3
    then show ?thesis
      using risk_classes_distinct risk_bg_distinct
      by (simp add: getRiskColor_cases(3) getRiskBg_cases(3))
  next
    case 4
    then show ?thesis
      using risk_classes_distinct risk_bg_distinct
      by (simp add: getRiskColor_cases(4) getRiskBg_cases(4))
  qed
  have bounds:
    "getRiskColor 19 = js ''text-green-600''" "getRiskColor 20 = js ''text-yellow-600''"
    "getRiskColor 49 = js ''text-yellow-600''" "getRiskColor 50 = js ''text-orange-600''"
    "getRiskColor 79 = js ''text-orange-600''" "getRiskColor 80 = js ''text-red-600''"
    by (simp_all add: getRiskColor_cases)
  from tiers bounds show ?thesis by blast
qed

end
